theory Spec2Isabelle
  imports Complex_Main "HOL-Library.Word" "HOL-Library.Multiset"
begin

section \<open>JavaScript values\<close>

subsection \<open>Numbers\<close>

text \<open>
  A JavaScript number is an IEEE 754 double: a finite value, held here as the rational
  it denotes, or one of the three special values \<open>Infinity\<close>, \<open>-Infinity\<close> and \<open>NaN\<close>.
  An arithmetic operation takes the exact result and rounds it to the nearest double,
  ties to the even mantissa: \<open>to_double\<close>. Zero is unsigned: every divisor in the code
  below is a length or a size, hence never \<open>-0\<close>.
\<close>

datatype number = Fin rat | PosInf | NegInf | NaN

text \<open>
  The doubles of exponent \<open>e\<close> are the multiples \<open>n * 2 ^ (e - 52)\<close> with
  \<open>2 ^ 52 \<le> n < 2 ^ 53\<close>; the exponent runs from -1022 to 1023, and below \<open>2 ^ -1022\<close>
  the grid of exponent -1022 goes on down to zero (subnormal numbers).
\<close>

definition pow2 :: "int \<Rightarrow> rat" where
  "pow2 e = (if 0 \<le> e then of_int (2 ^ nat e) else 1 / of_int (2 ^ nat (- e)))"

text \<open>The number of binary digits of a positive integer.\<close>

function bit_length :: "int \<Rightarrow> int" where
  "bit_length n = (if n \<le> 0 then 0 else 1 + bit_length (n div 2))"
  by pat_completeness auto
termination
  by (relation "measure nat") auto

declare bit_length.simps [simp del]

text \<open>
  The exponent of a positive rational \<open>x = p / q\<close>: the \<open>e\<close> with
  \<open>2 ^ e \<le> x < 2 ^ (e + 1)\<close> is the difference of the bit lengths of \<open>p\<close> and \<open>q\<close>,
  or one below it.
\<close>

definition exponent_of :: "rat \<Rightarrow> int" where
  "exponent_of x =
     (let (p, q) = quotient_of x;
          e = bit_length p - bit_length q
      in if pow2 e \<le> x then e else e - 1)"

definition round_half_even :: "rat \<Rightarrow> int" where
  "round_half_even y =
     (let f = \<lfloor>y\<rfloor>;
          r = y - of_int f
      in if r < 1 / 2 then f
         else if 1 / 2 < r then f + 1
         else if even f then f else f + 1)"

text \<open>
  Rounding a positive rational: to the nearest multiple of the quantum of its exponent;
  \<open>None\<close> when the result passes the largest double.
\<close>

definition round_magnitude :: "rat \<Rightarrow> rat option" where
  "round_magnitude a =
     (let e = max (exponent_of a) (- 1022);
          q = pow2 (e - 52);
          n = round_half_even (a / q)
      in if 1023 < e \<or> (e = 1023 \<and> 2 ^ 53 \<le> n) then None else Some (of_int n * q))"

definition to_double :: "rat \<Rightarrow> number" where
  "to_double x =
     (if x = 0 then Fin 0
      else case round_magnitude \<bar>x\<bar> of
             None \<Rightarrow> (if x < 0 then NegInf else PosInf)
           | Some r \<Rightarrow> Fin (if x < 0 then - r else r))"

text \<open>
  A decimal literal of the source denotes the nearest double: \<open>0.6\<close> is
  \<open>to_double (6 / 10)\<close>. Integers and \<open>0.5\<close> are doubles themselves.
\<close>

fun num_neg :: "number \<Rightarrow> number" where
  "num_neg (Fin a) = Fin (- a)"
| "num_neg PosInf = NegInf"
| "num_neg NegInf = PosInf"
| "num_neg NaN = NaN"

fun num_add :: "number \<Rightarrow> number \<Rightarrow> number" where
  "num_add NaN _ = NaN"
| "num_add _ NaN = NaN"
| "num_add (Fin a) (Fin b) = to_double (a + b)"
| "num_add PosInf NegInf = NaN"
| "num_add NegInf PosInf = NaN"
| "num_add PosInf _ = PosInf"
| "num_add NegInf _ = NegInf"
| "num_add (Fin a) y = y"

definition num_sub :: "number \<Rightarrow> number \<Rightarrow> number" where
  "num_sub x y = num_add x (num_neg y)"

fun num_sign :: "number \<Rightarrow> int" where
  "num_sign (Fin a) = (if a < 0 then -1 else if a = 0 then 0 else 1)"
| "num_sign PosInf = 1"
| "num_sign NegInf = -1"
| "num_sign NaN = 0"

definition inf_of_sign :: "int \<Rightarrow> number" where
  "inf_of_sign s = (if s < 0 then NegInf else PosInf)"

fun num_mul :: "number \<Rightarrow> number \<Rightarrow> number" where
  "num_mul NaN _ = NaN"
| "num_mul _ NaN = NaN"
| "num_mul (Fin a) (Fin b) = to_double (a * b)"
| "num_mul x y =
     (if num_sign x = 0 \<or> num_sign y = 0 then NaN else inf_of_sign (num_sign x * num_sign y))"

fun num_div :: "number \<Rightarrow> number \<Rightarrow> number" where
  "num_div NaN _ = NaN"
| "num_div _ NaN = NaN"
| "num_div (Fin a) (Fin b) =
     (if b \<noteq> 0 then to_double (a / b)
      else if a = 0 then NaN
      else inf_of_sign (num_sign (Fin a)))"
| "num_div (Fin a) _ = Fin 0"
| "num_div x (Fin b) = inf_of_sign (num_sign x * (if b < 0 then -1 else 1))"
| "num_div _ _ = NaN"

text \<open>Comparisons with \<open>NaN\<close> are false.\<close>

fun num_lt :: "number \<Rightarrow> number \<Rightarrow> bool" where
  "num_lt NaN _ = False"
| "num_lt _ NaN = False"
| "num_lt (Fin a) (Fin b) = (a < b)"
| "num_lt NegInf y = (y \<noteq> NegInf)"
| "num_lt x PosInf = (x \<noteq> PosInf)"
| "num_lt _ _ = False"

fun num_ge :: "number \<Rightarrow> number \<Rightarrow> bool" where
  "num_ge NaN _ = False"
| "num_ge _ NaN = False"
| "num_ge x y = (\<not> num_lt x y)"

definition num_gt :: "number \<Rightarrow> number \<Rightarrow> bool" where
  "num_gt x y = num_lt y x"

text \<open>
  \<open>Math.max\<close> of two arguments and \<open>Math.round\<close>: the nearest integer, a half
  going up. Both are exact.
\<close>

fun math_max :: "number \<Rightarrow> number \<Rightarrow> number" where
  "math_max NaN _ = NaN"
| "math_max _ NaN = NaN"
| "math_max x y = (if num_lt x y then y else x)"

fun math_round :: "number \<Rightarrow> number" where
  "math_round (Fin a) = Fin (of_int \<lfloor>a + 1 / 2\<rfloor>)"
| "math_round x = x"

text \<open>
  A length or a size as a number. Both stay below \<open>2 ^ 53\<close>, where every integer is a
  double.
\<close>

definition number_of_nat :: "nat \<Rightarrow> number" where
  "number_of_nat n = Fin (of_nat n)"

subsection \<open>Strings\<close>

text \<open>
  A JavaScript string is a sequence of 16-bit UTF-16 code units; \<open>length\<close>, indexing,
  \<open>includes\<close>, \<open>split\<close> and the regular expressions used here (none has the \<open>u\<close>
  flag) all work on code units. String literals of the source are written as lists of
  code units.
\<close>

type_synonym jschar = "16 word"
type_synonym jsstring = "jschar list"

text \<open>
  \<open>String.prototype.toLowerCase\<close> reads the string as code points, lower-cases them by
  the Unicode default case conversion, and writes the result as code units again.

  Reading: a high surrogate followed by a low surrogate is one code point from
  \<open>0x10000\<close> on; any other code unit, a surrogate on its own included, is the code
  point of its value.
\<close>

definition is_high_surrogate :: "jschar \<Rightarrow> bool" where
  "is_high_surrogate c \<longleftrightarrow> 0xD800 \<le> c \<and> c \<le> 0xDBFF"

definition is_low_surrogate :: "jschar \<Rightarrow> bool" where
  "is_low_surrogate c \<longleftrightarrow> 0xDC00 \<le> c \<and> c \<le> 0xDFFF"

fun code_points :: "jsstring \<Rightarrow> int list" where
  "code_points [] = []"
| "code_points [c] = [uint c]"
| "code_points (c # d # cs) =
     (if is_high_surrogate c \<and> is_low_surrogate d
      then (0x10000 + (uint c - 0xD800) * 0x400 + (uint d - 0xDC00)) # code_points cs
      else uint c # code_points (d # cs))"

definition code_units :: "int \<Rightarrow> jsstring" where
  "code_units cp =
     (if cp < 0x10000 then [of_int cp]
      else [of_int (0xD800 + (cp - 0x10000) div 0x400),
            of_int (0xDC00 + (cp - 0x10000) mod 0x400)])"

text \<open>
  The case tables belong to the engine, not to the repository; the model takes them as
  a parameter. \<open>lowercase_mapping preceding c following\<close> is the lower-case mapping of
  the code point \<open>c\<close> that stands between the code points \<open>preceding\<close> and
  \<open>following\<close>: one or more code points, \<open>[c]\<close> when \<open>c\<close> has no mapping. (In the
  tables of Unicode the context matters for one code point only, the capital sigma.)
\<close>

record unicode =
  lowercase_mapping :: "int list \<Rightarrow> int \<Rightarrow> int list \<Rightarrow> int list"

fun lower_points :: "unicode \<Rightarrow> int list \<Rightarrow> int list \<Rightarrow> int list" where
  "lower_points u preceding [] = []"
| "lower_points u preceding (c # following) =
     lowercase_mapping u preceding c following @ lower_points u (preceding @ [c]) following"

definition toLowerCase :: "unicode \<Rightarrow> jsstring \<Rightarrow> jsstring" where
  "toLowerCase u s = concat (map code_units (lower_points u [] (code_points s)))"

text \<open>The class \<open>\s\<close> of a regular expression; \<open>trim\<close> removes the same code units.\<close>

definition is_space :: "jschar \<Rightarrow> bool" where
  "is_space c \<longleftrightarrow>
     (0x09 \<le> c \<and> c \<le> 0x0D) \<or> c = 0x20 \<or> c = 0xA0 \<or> c = 0x1680 \<or>
     (0x2000 \<le> c \<and> c \<le> 0x200A) \<or> c = 0x2028 \<or> c = 0x2029 \<or> c = 0x202F \<or>
     c = 0x205F \<or> c = 0x3000 \<or> c = 0xFEFF"

definition trim :: "jsstring \<Rightarrow> jsstring" where
  "trim s = rev (dropWhile is_space (rev (dropWhile is_space s)))"

text \<open>Line terminators, which \<open>.\<close> does not match.\<close>

definition is_line_terminator :: "jschar \<Rightarrow> bool" where
  "is_line_terminator c \<longleftrightarrow> c = 0x0A \<or> c = 0x0D \<or> c = 0x2028 \<or> c = 0x2029"

text \<open>ASCII literals are written as HOL strings and converted.\<close>

definition ascii :: "string \<Rightarrow> jsstring" where
  "ascii s = map of_char s"

text \<open>\<open>s.includes(p)\<close>: \<open>p\<close> occurs in \<open>s\<close> as a contiguous block.\<close>

fun str_includes :: "jsstring \<Rightarrow> jsstring \<Rightarrow> bool" where
  "str_includes [] p = (p = [])"
| "str_includes (c # cs) p = (take (length p) (c # cs) = p \<or> str_includes cs p)"

text \<open>\<open>s.split(sep)\<close> for a separator of one code unit, given as a predicate.\<close>

fun split_on :: "(jschar \<Rightarrow> bool) \<Rightarrow> jsstring \<Rightarrow> jsstring list" where
  "split_on sep [] = [[]]"
| "split_on sep (c # cs) =
     (if sep c then [] # split_on sep cs
      else (case split_on sep cs of
              [] \<Rightarrow> [[c]]
            | p # ps \<Rightarrow> (c # p) # ps))"

text \<open>\<open>parts.join(sep)\<close>.\<close>

fun join :: "jsstring \<Rightarrow> jsstring list \<Rightarrow> jsstring" where
  "join sep [] = []"
| "join sep [p] = p"
| "join sep (p # ps) = p @ sep @ join sep ps"

section \<open>Text normalisation and edit similarity (detectors)\<close>

text \<open>
  \<open>normalizeText\<close>: lower-case, delete every code unit of the class
  \<open>[\s\<dots>]\<close> (white space, the full-width comma, full stop, exclamation and question
  mark, enumeration comma, semicolon, colon, the two ASCII quotes, full-width
  parentheses and lenticular brackets), then trim.
\<close>

definition is_stripped :: "jschar \<Rightarrow> bool" where
  "is_stripped c \<longleftrightarrow>
     is_space c \<or>
     c \<in> set [0xFF0C, 0x3002, 0xFF01, 0xFF1F, 0x3001, 0xFF1B, 0xFF1A,
              0x22, 0x22, 0x27, 0x27, 0xFF08, 0xFF09, 0x3010, 0x3011]"

definition normalizeText :: "unicode \<Rightarrow> jsstring \<Rightarrow> jsstring" where
  "normalizeText u text = trim (filter (\<lambda>c. \<not> is_stripped c) (toLowerCase u text))"

text \<open>
  \<open>levenshteinDistance\<close> fills a matrix of \<open>length str1 + 1\<close> rows. Row \<open>i\<close> starts as
  \<open>[i]\<close>; every later write \<open>matrix[i][j] = v\<close> has \<open>j\<close> equal to the current length of
  the row (or below it, for \<open>matrix[0][0]\<close>), so it appends (or overwrites).
\<close>

definition js_set :: "'a list \<Rightarrow> nat \<Rightarrow> 'a \<Rightarrow> 'a list" where
  "js_set xs j v = (if j < length xs then xs[j := v] else xs @ [v])"

definition lev_init :: "nat \<Rightarrow> nat \<Rightarrow> nat list list" where
  "lev_init m n =
     (let matrix = map (\<lambda>i. [i]) [0..<m + 1]
      in fold (\<lambda>j M. M[0 := js_set (M ! 0) j j]) [0..<n + 1] matrix)"

definition lev_cell :: "jsstring \<Rightarrow> jsstring \<Rightarrow> nat \<Rightarrow> nat \<Rightarrow> nat list list \<Rightarrow> nat list list" where
  "lev_cell str1 str2 i j M =
     (let cost = (if str1 ! (i - 1) = str2 ! (j - 1) then 0 else 1)
      in M[i := js_set (M ! i) j
                  (min (min (M ! (i - 1) ! j + 1) (M ! i ! (j - 1) + 1))
                       (M ! (i - 1) ! (j - 1) + cost))])"

definition lev_matrix :: "jsstring \<Rightarrow> jsstring \<Rightarrow> nat list list" where
  "lev_matrix str1 str2 =
     fold (\<lambda>i M. fold (\<lambda>j M. lev_cell str1 str2 i j M) [1..<length str2 + 1] M)
          [1..<length str1 + 1]
          (lev_init (length str1) (length str2))"

definition levenshteinDistance :: "jsstring \<Rightarrow> jsstring \<Rightarrow> nat" where
  "levenshteinDistance str1 str2 = lev_matrix str1 str2 ! length str1 ! length str2"

definition calculateSimilarity :: "unicode \<Rightarrow> jsstring \<Rightarrow> jsstring \<Rightarrow> number" where
  "calculateSimilarity u text1 text2 =
     (let normalized1 = normalizeText u text1;
          normalized2 = normalizeText u text2;
          distance = levenshteinDistance normalized1 normalized2;
          maxLength = max (length normalized1) (length normalized2)
      in num_sub (Fin 1) (num_div (number_of_nat distance) (number_of_nat maxLength)))"

section \<open>Structural features (detectors)\<close>

text \<open>
  \<open>/^(.+?)W(.+?)$/.test(text)\<close> for a literal \<open>W\<close>: the text has no line terminator
  (\<open>.\<close> does not match one, and \<open>^\<close>, \<open>$\<close> are the ends of the text) and \<open>W\<close> occurs
  with at least one code unit before it and one after it.
\<close>

definition topic_comment :: "jsstring \<Rightarrow> jsstring \<Rightarrow> bool" where
  "topic_comment w text \<longleftrightarrow>
     \<not> list_ex is_line_terminator text \<and>
     list_ex (\<lambda>i. take (length w) (drop i text) = w) [1..<length text - length w]"

definition extractStructureFeatures :: "jsstring \<Rightarrow> jsstring list" where
  "extractStructureFeatures text =
     (if topic_comment [0x662F] text then [[0x662F, 0x5B57, 0x53E5]] else []) @
     (if topic_comment [0x8BA9] text then [[0x4F7F, 0x4EE4, 0x53E5]] else []) @
     (if topic_comment [0x53EF, 0x4EE5] text then [[0x53EF, 0x80FD, 0x53E5]] else []) @
     (if topic_comment [0x6709] text then [[0x5B58, 0x5728, 0x53E5]] else []) @
     (if topic_comment [0x5728] text then [[0x5904, 0x6240, 0x53E5]] else []) @
     (if str_includes text [0x56E0, 0x4E3A] \<or> str_includes text [0x7531, 0x4E8E]
      then [[0x56E0, 0x679C]] else []) @
     (if str_includes text [0x4F46, 0x662F] \<or> str_includes text [0x7136, 0x800C]
      then [[0x8F6C, 0x6298]] else []) @
     (if str_includes text [0x800C, 0x4E14] \<or> str_includes text [0x5E76, 0x4E14]
      then [[0x9012, 0x8FDB]] else []) @
     (if str_includes text [0x5982, 0x679C] \<or> str_includes text [0x5047, 0x5982]
      then [[0x5047, 0x8BBE]] else [])"

text \<open>The elements of \<open>new Set(xs)\<close> in iteration order: first occurrences.\<close>

definition new_Set :: "'a list \<Rightarrow> 'a list" where
  "new_Set xs = rev (remdups (rev xs))"

definition calculateStructureSimilarity :: "jsstring \<Rightarrow> jsstring \<Rightarrow> number" where
  "calculateStructureSimilarity text1 text2 =
     (let features1 = extractStructureFeatures text1;
          features2 = extractStructureFeatures text2;
          intersection = filter (\<lambda>f. f \<in> set features2) features1;
          union = new_Set (features1 @ features2)
      in num_div (number_of_nat (length intersection)) (number_of_nat (length union)))"

section \<open>Scripts and duplicate results\<close>

text \<open>
  Record fields carry a prefix, since HOL field names are global: \<open>seg_id\<close> is the
  \<open>id\<close> of a \<open>ScriptSegment\<close>, \<open>dup_source\<close> the \<open>source\<close> of a \<open>DuplicateResult\<close>,
  and so on. The segment \<open>type\<close> is a string at run time. The \<open>metadata\<close> of a script
  is read by none of the functions below and is left out.
\<close>

record ScriptSegment =
  seg_id :: jsstring
  seg_startTime :: number
  seg_endTime :: number
  seg_content :: jsstring
  seg_type :: jsstring

record ScriptData =
  script_id :: jsstring
  script_title :: jsstring
  script_content :: jsstring
  script_segments :: "ScriptSegment list"
  script_createdAt :: jsstring
  script_updatedAt :: jsstring

datatype DedupStrategy = StratExact | StratSemantic | StratStructural | StratTemplate

datatype DuplicateType = Exact | Similar | Template

record SegmentRef =
  ref_segmentId :: jsstring
  ref_content :: jsstring
  ref_startTime :: number

record DuplicateResult =
  dup_id :: jsstring
  dup_type :: DuplicateType
  dup_source :: SegmentRef
  dup_target :: SegmentRef
  dup_similarity :: number
  dup_suggestion :: jsstring

record DedupConfig =
  cfg_enabled :: bool
  cfg_strategies :: "DedupStrategy list"
  cfg_threshold :: number
  cfg_autoFix :: bool
  cfg_preserveMeaning :: bool
  cfg_autoVariant :: bool
  cfg_variantIntensity :: "number option"

text \<open>Reading a property of \<open>undefined\<close> throws.\<close>

datatype js_error = TypeError

definition seg_ref :: "ScriptSegment \<Rightarrow> SegmentRef" where
  "seg_ref s = \<lparr>ref_segmentId = seg_id s, ref_content = seg_content s,
               ref_startTime = seg_startTime s\<rparr>"

definition COMMON_PHRASES :: "(jsstring \<times> jsstring list) list" where
  "COMMON_PHRASES =
    [(ascii ''intro'',
       [[0x5927, 0x5BB6, 0x597D, 0xFF0C, 0x6B22, 0x8FCE, 0x6765, 0x5230],
        [0x4ECA, 0x5929, 0x7ED9, 0x5927, 0x5BB6, 0x5E26, 0x6765],
        [0x4ECA, 0x5929, 0x8981, 0x548C, 0x5927, 0x5BB6, 0x5206, 0x4EAB],
        [0x76F8, 0x4FE1, 0x5F88, 0x591A, 0x4EBA, 0x90FD, 0x6709, 0x8FC7, 0x8FD9, 0x6837,
        0x7684, 0x7ECF, 0x5386],
        [0x4E0D, 0x77E5, 0x9053, 0x5927, 0x5BB6, 0x6709, 0x6CA1, 0x6709, 0x53D1, 0x73B0],
        [0x4ECA, 0x5929, 0x6211, 0x4EEC, 0x8981, 0x804A, 0x7684, 0x662F],
        [0x6700, 0x8FD1, 0x6211, 0x53D1, 0x73B0],
        [0x4ECA, 0x5929, 0x7ED9, 0x5927, 0x5BB6, 0x63A8, 0x8350]]),
     (ascii ''transition'',
       [[0x63A5, 0x4E0B, 0x6765, 0x6211, 0x4EEC, 0x770B, 0x770B],
        [0x90A3, 0x4E48, 0x63A5, 0x4E0B, 0x6765],
        [0x8BF4, 0x5B8C, 0x8FD9, 0x4E2A, 0xFF0C, 0x6211, 0x4EEC, 0x518D, 0x6765, 0x770B,
        0x770B],
        [0x4E0D, 0x4EC5, 0x5982, 0x6B64],
        [0x66F4, 0x91CD, 0x8981, 0x7684, 0x662F],
        [0x9664, 0x6B64, 0x4E4B, 0x5916],
        [0x53E6, 0x5916, 0x503C, 0x5F97, 0x4E00, 0x63D0, 0x7684, 0x662F]]),
     (ascii ''conclusion'',
       [[0x597D, 0x4E86, 0xFF0C, 0x4ECA, 0x5929, 0x7684, 0x5206, 0x4EAB, 0x5C31, 0x5230,
        0x8FD9, 0x91CC],
        [0x4EE5, 0x4E0A, 0x5C31, 0x662F, 0x4ECA, 0x5929, 0x7684, 0x5168, 0x90E8, 0x5185,
        0x5BB9],
        [0x5E0C, 0x671B, 0x4ECA, 0x5929, 0x7684, 0x5206, 0x4EAB, 0x5BF9, 0x4F60, 0x6709,
        0x5E2E, 0x52A9],
        [0x5982, 0x679C, 0x4F60, 0x89C9, 0x5F97, 0x6709, 0x7528, 0xFF0C, 0x8BB0, 0x5F97,
        0x70B9, 0x8D5E, 0x6536, 0x85CF],
        [0x6211, 0x4EEC, 0x4E0B, 0x671F, 0x518D, 0x89C1],
        [0x611F, 0x8C22, 0x5927, 0x5BB6, 0x7684, 0x89C2, 0x770B]]),
     (ascii ''emphasis'',
       [[0x975E, 0x5E38, 0x91CD, 0x8981],
        [0x503C, 0x5F97, 0x6CE8, 0x610F, 0x7684, 0x662F],
        [0x5173, 0x952E, 0x70B9, 0x5728, 0x4E8E],
        [0x8FD9, 0x91CC, 0x9700, 0x8981, 0x7279, 0x522B, 0x6CE8, 0x610F],
        [0x8FD9, 0x4E00, 0x70B9, 0x5F88, 0x5173, 0x952E],
        [0x5343, 0x4E07, 0x4E0D, 0x8981, 0x5FFD, 0x89C6]]),
     (ascii ''subjective'',
       [[0x6211, 0x89C9, 0x5F97],
        [0x4E2A, 0x4EBA, 0x8BA4, 0x4E3A],
        [0x5728, 0x6211, 0x770B, 0x6765],
        [0x8BF4, 0x5B9E, 0x8BDD],
        [0x8001, 0x5B9E, 0x8BF4],
        [0x5766, 0x767D, 0x8BB2],
        [0x4E0D, 0x5F97, 0x4E0D, 0x8BF4]])]"

section \<open>The four detection passes\<close>

text \<open>
  The \<open>id\<close> of a result is built from the clock and a random suffix (and, in the two
  pair passes, the indices). No function reads it; the model takes the id of the
  \<open>k\<close>-th result of a pass from an oracle \<open>fresh k\<close>.
\<close>

fun detectExact_loop ::
  "(nat \<Rightarrow> jsstring) \<Rightarrow> (jsstring \<Rightarrow> jsstring) \<Rightarrow> ScriptSegment list \<Rightarrow>
   (jsstring \<rightharpoonup> jsstring) \<Rightarrow> DuplicateResult list \<Rightarrow> ScriptSegment list \<Rightarrow>
   js_error + DuplicateResult list" where
  "detectExact_loop fresh normalizeFn segments contentMap duplicates [] = Inr duplicates"
| "detectExact_loop fresh normalizeFn segments contentMap duplicates (segment # rest) =
     (let normalized = normalizeFn (seg_content segment)
      in case contentMap normalized of
           Some existingId \<Rightarrow>
             (case find (\<lambda>s. seg_id s = existingId) segments of
                None \<Rightarrow> Inl TypeError
              | Some existing \<Rightarrow>
                  detectExact_loop fresh normalizeFn segments contentMap
                    (duplicates @
                     [\<lparr>dup_id = fresh (length duplicates),
                       dup_type = Exact,
                       dup_source = seg_ref existing,
                       dup_target = seg_ref segment,
                       dup_similarity = Fin 1,
                       dup_suggestion =
                         [0x5185, 0x5BB9, 0x5B8C, 0x5168, 0x91CD, 0x590D, 0xFF0C, 0x5EFA, 0x8BAE,
                          0x5220, 0x9664, 0x6216, 0x5408, 0x5E76]\<rparr>])
                    rest)
         | None \<Rightarrow>
             detectExact_loop fresh normalizeFn segments
               (contentMap(normalized \<mapsto> seg_id segment)) duplicates rest)"

definition detectExactDuplicates ::
  "(nat \<Rightarrow> jsstring) \<Rightarrow> ScriptSegment list \<Rightarrow> (jsstring \<Rightarrow> jsstring) \<Rightarrow>
   js_error + DuplicateResult list" where
  "detectExactDuplicates fresh segments normalizeFn =
     detectExact_loop fresh normalizeFn segments Map.empty [] segments"

definition generateSuggestion :: "number \<Rightarrow> jsstring" where
  "generateSuggestion similarity =
     (if num_ge similarity (to_double (9 / 10)) then
        [0x5185, 0x5BB9, 0x9AD8, 0x5EA6, 0x76F8, 0x4F3C, 0xFF0C, 0x5EFA, 0x8BAE, 0x5B8C, 0x5168,
         0x91CD, 0x5199]
      else if num_ge similarity (to_double (8 / 10)) then
        [0x5185, 0x5BB9, 0x8F83, 0x4E3A, 0x76F8, 0x4F3C, 0xFF0C, 0x5EFA, 0x8BAE, 0x5927, 0x5E45,
         0x4FEE, 0x6539]
      else if num_ge similarity (to_double (7 / 10)) then
        [0x5185, 0x5BB9, 0x6709, 0x4E00, 0x5B9A, 0x76F8, 0x4F3C, 0x5EA6, 0xFF0C, 0x5EFA, 0x8BAE,
         0x8C03, 0x6574, 0x8868, 0x8FBE, 0x65B9, 0x5F0F]
      else [0x5EFA, 0x8BAE, 0x68C0, 0x67E5, 0x5185, 0x5BB9, 0x539F, 0x521B, 0x6027])"

text \<open>The pairs \<open>(i, j)\<close> with \<open>i < j < n\<close>, in the order of the two nested loops.\<close>

definition index_pairs :: "nat \<Rightarrow> (nat \<times> nat) list" where
  "index_pairs n = concat (map (\<lambda>i. map (\<lambda>j. (i, j)) [i + 1..<n]) [0..<n])"

definition detectSemanticDuplicates ::
  "(nat \<Rightarrow> jsstring) \<Rightarrow> ScriptSegment list \<Rightarrow> number \<Rightarrow>
   (jsstring \<Rightarrow> jsstring \<Rightarrow> number) \<Rightarrow> DuplicateResult list" where
  "detectSemanticDuplicates fresh segments threshold calcSim =
     (let sim = (\<lambda>(i, j). calcSim (seg_content (segments ! i)) (seg_content (segments ! j)));
          hits = filter (\<lambda>p. num_ge (sim p) threshold) (index_pairs (length segments))
      in map (\<lambda>(k, (i, j)).
                \<lparr>dup_id = fresh k,
                 dup_type = Similar,
                 dup_source = seg_ref (segments ! i),
                 dup_target = seg_ref (segments ! j),
                 dup_similarity = sim (i, j),
                 dup_suggestion = generateSuggestion (sim (i, j))\<rparr>)
             (enumerate 0 hits))"

text \<open>Every (segment, category, phrase) with the phrase in the segment, in loop order.\<close>

definition template_hits :: "ScriptSegment list \<Rightarrow> (ScriptSegment \<times> jsstring \<times> jsstring) list" where
  "template_hits segments =
     concat (map (\<lambda>segment.
       concat (map (\<lambda>(category, phrases).
         map (\<lambda>phrase. (segment, category, phrase))
             (filter (\<lambda>phrase. str_includes (seg_content segment) phrase) phrases))
         COMMON_PHRASES))
       segments)"

definition detectTemplateContent ::
  "(nat \<Rightarrow> jsstring) \<Rightarrow> ScriptSegment list \<Rightarrow> DuplicateResult list" where
  "detectTemplateContent fresh segments =
     map (\<lambda>(k, (segment, category, phrase)).
            \<lparr>dup_id = fresh k,
             dup_type = Template,
             dup_source = \<lparr>ref_segmentId = seg_id segment, ref_content = phrase,
                           ref_startTime = seg_startTime segment\<rparr>,
             dup_target = seg_ref segment,
             dup_similarity = Fin (1 / 2),
             dup_suggestion =
               [0x68C0, 0x6D4B, 0x5230] @ category @
               [0x5957, 0x8BDD, 0xFF0C, 0x5EFA, 0x8BAE, 0x66FF, 0x6362, 0x4E3A, 0x66F4, 0x539F,
                0x521B, 0x7684, 0x8868, 0x8FBE]\<rparr>)
         (enumerate 0 (template_hits segments))"

definition detectStructuralDuplicates ::
  "(nat \<Rightarrow> jsstring) \<Rightarrow> ScriptSegment list \<Rightarrow> number \<Rightarrow>
   (jsstring \<Rightarrow> jsstring \<Rightarrow> number) \<Rightarrow> DuplicateResult list" where
  "detectStructuralDuplicates fresh segments threshold calcStruct =
     (let sim = (\<lambda>(i, j). calcStruct (seg_content (segments ! i)) (seg_content (segments ! j)));
          hits = filter (\<lambda>p. num_ge (sim p) threshold) (index_pairs (length segments))
      in map (\<lambda>(k, (i, j)).
                \<lparr>dup_id = fresh k,
                 dup_type = Similar,
                 dup_source = seg_ref (segments ! i),
                 dup_target = seg_ref (segments ! j),
                 dup_similarity = sim (i, j),
                 dup_suggestion =
                   [0x53E5, 0x5F0F, 0x7ED3, 0x6784, 0x76F8, 0x4F3C, 0xFF0C, 0x5EFA, 0x8BAE,
                    0x53D8, 0x6362, 0x8868, 0x8FBE, 0x65B9, 0x5F0F]\<rparr>)
             (enumerate 0 hits))"

section \<open>Merging the passes\<close>

text \<open>The segment ids that a result names as its source and as its target.\<close>

abbreviation source_id :: "DuplicateResult \<Rightarrow> jsstring" where
  "source_id r \<equiv> ref_segmentId (dup_source r)"

abbreviation target_id :: "DuplicateResult \<Rightarrow> jsstring" where
  "target_id r \<equiv> ref_segmentId (dup_target r)"


text \<open>
  \<open>deduplicateResults\<close> filters with a set of seen keys \<open>source-target\<close>; a result is
  dropped when its key or its reversed key has been seen.
\<close>

definition pair_key :: "jsstring \<Rightarrow> jsstring \<Rightarrow> jsstring" where
  "pair_key a b = a @ ascii ''-'' @ b"

fun dedup_filter :: "jsstring set \<Rightarrow> DuplicateResult list \<Rightarrow> DuplicateResult list" where
  "dedup_filter seen [] = []"
| "dedup_filter seen (result # rest) =
     (let key = pair_key (ref_segmentId (dup_source result)) (ref_segmentId (dup_target result));
          reverseKey = pair_key (ref_segmentId (dup_target result)) (ref_segmentId (dup_source result))
      in if key \<in> seen \<or> reverseKey \<in> seen then dedup_filter seen rest
         else result # dedup_filter (insert key seen) rest)"

definition deduplicateResults :: "DuplicateResult list \<Rightarrow> DuplicateResult list" where
  "deduplicateResults results = dedup_filter {} results"

text \<open>
  \<open>Array.prototype.sort\<close> with a comparator is stable: \<open>x\<close> moves behind \<open>y\<close> only when
  \<open>cmp x y > 0\<close>.
\<close>

fun insert_by :: "('a \<Rightarrow> 'a \<Rightarrow> number) \<Rightarrow> 'a \<Rightarrow> 'a list \<Rightarrow> 'a list" where
  "insert_by cmp x [] = [x]"
| "insert_by cmp x (y # ys) =
     (if num_gt (cmp x y) (Fin 0) then y # insert_by cmp x ys else x # y # ys)"

definition js_sort :: "('a \<Rightarrow> 'a \<Rightarrow> number) \<Rightarrow> 'a list \<Rightarrow> 'a list" where
  "js_sort cmp xs = foldr (insert_by cmp) xs []"

text \<open>
  \<open>DedupService.detectDuplicates\<close>: the enabled passes in the fixed order exact, semantic,
  template, structural; then \<open>deduplicateResults\<close> and the sort by falling similarity.
\<close>

definition detectDuplicates ::
  "unicode \<Rightarrow> (DedupStrategy \<Rightarrow> nat \<Rightarrow> jsstring) \<Rightarrow> DedupConfig \<Rightarrow> ScriptData \<Rightarrow>
   js_error + DuplicateResult list" where
  "detectDuplicates u fresh config script =
     (let segments = script_segments script
      in case (if StratExact \<in> set (cfg_strategies config)
               then detectExactDuplicates (fresh StratExact) segments (normalizeText u)
               else Inr []) of
           Inl e \<Rightarrow> Inl e
         | Inr exact \<Rightarrow>
             (let semantic =
                    (if StratSemantic \<in> set (cfg_strategies config)
                     then detectSemanticDuplicates (fresh StratSemantic) segments
                            (cfg_threshold config) (calculateSimilarity u)
                     else []);
                  template =
                    (if StratTemplate \<in> set (cfg_strategies config)
                     then detectTemplateContent (fresh StratTemplate) segments
                     else []);
                  structural =
                    (if StratStructural \<in> set (cfg_strategies config)
                     then detectStructuralDuplicates (fresh StratStructural) segments
                            (cfg_threshold config) calculateStructureSimilarity
                     else []);
                  duplicates = exact @ semantic @ template @ structural
              in Inr (js_sort (\<lambda>a b. num_sub (dup_similarity b) (dup_similarity a))
                        (deduplicateResults duplicates))))"


section \<open>Originality report (rewriters)\<close>

text \<open>
  Decimal and hexadecimal rendering of a non-negative integer (template literals and
  \<open>toString(16)\<close>).
\<close>

definition digit_char :: "int \<Rightarrow> jschar" where
  "digit_char d = (if d < 10 then of_int (0x30 + d) else of_int (0x61 + (d - 10)))"

function digits_of :: "int \<Rightarrow> int \<Rightarrow> jsstring" where
  "digits_of b n =
     (if b < 2 \<or> n < b then [digit_char n] else digits_of b (n div b) @ [digit_char (n mod b)])"
  by pat_completeness auto
termination
  by (relation "measure (\<lambda>(b, n). nat n)") (auto simp: int_div_less_self)

declare digits_of.simps [simp del]

definition dec_string :: "nat \<Rightarrow> jsstring" where
  "dec_string n = digits_of 10 (int n)"

definition hex_string :: "int \<Rightarrow> jsstring" where
  "hex_string n = digits_of 16 n"

record OriginalityScore =
  rep_score :: number
  rep_suggestions :: "jsstring list"

definition generateOriginalityReport :: "ScriptData \<Rightarrow> DuplicateResult list \<Rightarrow> OriginalityScore" where
  "generateOriginalityReport script duplicates =
     (let totalSegments = length (script_segments script);
          duplicateCount = length (new_Set (map (\<lambda>d. ref_segmentId (dup_target d)) duplicates));
          score = math_max (Fin 0)
                    (num_sub (Fin 100)
                       (num_mul (num_div (number_of_nat duplicateCount) (number_of_nat totalSegments))
                                (Fin 100)));
          suggestions1 =
            (if num_lt score (Fin 60) then
               [[0x539F, 0x521B, 0x6027, 0x8F83, 0x4F4E, 0xFF0C, 0x5EFA, 0x8BAE, 0x5927, 0x5E45,
                0x4FEE, 0x6539, 0x5185, 0x5BB9]]
             else if num_lt score (Fin 80) then
               [[0x539F, 0x521B, 0x6027, 0x4E00, 0x822C, 0xFF0C, 0x5EFA, 0x8BAE, 0x4F18, 0x5316,
                0x91CD, 0x590D, 0x6BB5, 0x843D]]
             else []);
          templateCount = length (filter (\<lambda>d. dup_type d = Template) duplicates);
          suggestions2 =
            (if templateCount > 0 then
               [[0x68C0, 0x6D4B, 0x5230, 0x0020] @ dec_string templateCount @
                [0x0020, 0x5904, 0x6A21, 0x677F, 0x5316, 0x8868, 0x8FBE, 0xFF0C, 0x5EFA, 0x8BAE,
                 0x4F7F, 0x7528, 0x66F4, 0x539F, 0x521B, 0x7684, 0x8BED, 0x8A00]]
             else []);
          exactCount = length (filter (\<lambda>d. dup_type d = Exact) duplicates);
          suggestions3 =
            (if exactCount > 0 then
               [[0x68C0, 0x6D4B, 0x5230, 0x0020] @ dec_string exactCount @
                [0x0020, 0x5904, 0x5B8C, 0x5168, 0x91CD, 0x590D, 0x5185, 0x5BB9, 0xFF0C, 0x5EFA,
                 0x8BAE, 0x5220, 0x9664, 0x6216, 0x5408, 0x5E76]]
             else [])
      in \<lparr>rep_score = math_round score,
          rep_suggestions = suggestions1 @ suggestions2 @ suggestions3\<rparr>)"

section \<open>Fingerprints (UniquenessService)\<close>

record ContentFingerprint =
  fp_id :: jsstring
  fp_scriptId :: jsstring
  fp_hash :: jsstring
  fp_keywords :: "jsstring list"
  fp_structure :: jsstring
  fp_createdAt :: jsstring

record MatchedScript =
  ms_id :: jsstring
  ms_title :: jsstring
  ms_createdAt :: jsstring

record UniquenessCheckResult =
  res_isUnique :: bool
  res_similarity :: number
  res_matchedScript :: "MatchedScript option"
  res_differences :: "jsstring list"
  res_suggestions :: "jsstring list"

text \<open>
  \<open>maxRewriteAttempts\<close> is compared with the integer counter \<open>attempts\<close> only; it is
  modelled as an integer.
\<close>

record UniquenessConfig =
  ucfg_enforceUniqueness :: bool
  ucfg_similarityThreshold :: number
  ucfg_checkHistory :: bool
  ucfg_autoRewrite :: bool
  ucfg_maxRewriteAttempts :: int
  ucfg_addRandomness :: bool

definition default_UniquenessConfig :: UniquenessConfig where
  "default_UniquenessConfig =
     \<lparr>ucfg_enforceUniqueness = True,
      ucfg_similarityThreshold = to_double (3 / 10),
      ucfg_checkHistory = True,
      ucfg_autoRewrite = True,
      ucfg_maxRewriteAttempts = 3,
      ucfg_addRandomness = True\<rparr>"

text \<open>
  A \<open>Map\<close> iterates in insertion order: an association list. \<open>set\<close> overwrites the
  value of a key that is present, in place, and appends a new key.
\<close>

definition Map_set :: "'k \<Rightarrow> 'v \<Rightarrow> ('k \<times> 'v) list \<Rightarrow> ('k \<times> 'v) list" where
  "Map_set k v m =
     (if k \<in> fst ` set m then map (\<lambda>(k', v'). if k' = k then (k', v) else (k', v')) m
      else m @ [(k, v)])"

text \<open>
  The service: its configuration, the fingerprint history, and the copy of the history
  last written to storage under the key \<open>script_fingerprints\<close>.
\<close>

record UniquenessService =
  us_config :: UniquenessConfig
  us_fingerprints :: "(jsstring \<times> ContentFingerprint) list"
  us_stored :: "(jsstring \<times> ContentFingerprint) list option"

subsection \<open>Keywords\<close>

text \<open>
  \<open>s.split(/\s+/)\<close>: a run of separators counts once. \<open>prev\<close> tells that the code
  unit before was a separator.
\<close>

fun split_runs_from :: "(jschar \<Rightarrow> bool) \<Rightarrow> bool \<Rightarrow> jsstring \<Rightarrow> jsstring list" where
  "split_runs_from sep prev [] = [[]]"
| "split_runs_from sep prev (c # cs) =
     (if sep c then
        (if prev then split_runs_from sep True cs else [] # split_runs_from sep True cs)
      else (case split_runs_from sep False cs of
              [] \<Rightarrow> [[c]]
            | p # ps \<Rightarrow> (c # p) # ps))"

definition split_runs :: "(jschar \<Rightarrow> bool) \<Rightarrow> jsstring \<Rightarrow> jsstring list" where
  "split_runs sep s = split_runs_from sep False s"

definition is_word_char :: "jschar \<Rightarrow> bool" where
  "is_word_char c \<longleftrightarrow>
     (0x4E00 \<le> c \<and> c \<le> 0x9FA5) \<or> (0x61 \<le> c \<and> c \<le> 0x7A) \<or>
     (0x41 \<le> c \<and> c \<le> 0x5A) \<or> (0x30 \<le> c \<and> c \<le> 0x39)"

definition stopWords :: "jsstring list" where
  "stopWords =
     [[0x7684], [0x4E86], [0x5728], [0x662F], [0x6211], [0x6709],
      [0x548C], [0x5C31], [0x4E0D], [0x4EBA], [0x90FD], [0x4E00],
      [0x4E00, 0x4E2A], [0x4E0A], [0x4E5F], [0x5F88], [0x5230], [0x8BF4],
      [0x8981], [0x53BB], [0x4F60], [0x4F1A], [0x7740], [0x6CA1, 0x6709],
      [0x770B], [0x597D], [0x81EA, 0x5DF1], [0x8FD9], [0x90A3]]"

definition count_word :: "(jsstring \<times> nat) list \<Rightarrow> jsstring \<Rightarrow> (jsstring \<times> nat) list" where
  "count_word wordCount word =
     Map_set word ((case map_of wordCount word of None \<Rightarrow> 0 | Some n \<Rightarrow> n) + 1) wordCount"

definition extractKeywords :: "unicode \<Rightarrow> jsstring \<Rightarrow> jsstring list" where
  "extractKeywords u content =
     (let spaced = map (\<lambda>c. if is_word_char c then c else 0x20) (toLowerCase u content);
          words = filter (\<lambda>w. length w \<ge> 2) (split_runs is_space spaced);
          wordCount = foldl count_word [] words;
          kept = filter (\<lambda>(word, n). word \<notin> set stopWords) wordCount;
          sorted = js_sort (\<lambda>a b. num_sub (number_of_nat (snd b)) (number_of_nat (snd a))) kept
      in map fst (take 20 sorted))"

subsection \<open>Structure signature and hash\<close>

definition is_sentence_end :: "jschar \<Rightarrow> bool" where
  "is_sentence_end c \<longleftrightarrow> c = 0x3002 \<or> c = 0xFF01 \<or> c = 0xFF1F"

definition generateStructureSignature :: "ScriptData \<Rightarrow> jsstring" where
  "generateStructureSignature script =
     join (ascii ''|'')
       (map (\<lambda>s. let len = length (seg_content s);
                     sentences = length (split_on is_sentence_end (seg_content s))
                 in seg_type s @ ascii '':'' @ dec_string len @ ascii '':'' @ dec_string sentences)
            (script_segments script))"

text \<open>
  The hash loop keeps a 32-bit integer in a number: \<open>hash << 5\<close> converts its operand
  to \<open>int32\<close> and wraps the shifted value, the subtraction and the addition are exact,
  and \<open>hash & hash\<close> converts the sum to \<open>int32\<close> again.
\<close>

definition to_int32 :: "int \<Rightarrow> int" where
  "to_int32 x = (x + 2 ^ 31) mod 2 ^ 32 - 2 ^ 31"

definition hash_step :: "int \<Rightarrow> jschar \<Rightarrow> int" where
  "hash_step hash c = to_int32 ((to_int32 (to_int32 hash * 2 ^ 5) - hash) + uint c)"

definition generateHash :: "unicode \<Rightarrow> jsstring \<Rightarrow> jsstring" where
  "generateHash u content =
     (let normalized = filter (\<lambda>c. \<not> is_space c) (toLowerCase u content);
          hash = foldl hash_step 0 normalized
      in hex_string \<bar>hash\<bar>)"

text \<open>
  The \<open>id\<close> and \<open>createdAt\<close> of a fingerprint come from the clock and the random
  generator; they are parameters of the model.
\<close>

definition generateFingerprint ::
  "unicode \<Rightarrow> jsstring \<times> jsstring \<Rightarrow> ScriptData \<Rightarrow> ContentFingerprint" where
  "generateFingerprint u env script =
     (let content = script_content script;
          keywords = extractKeywords u content;
          structure = generateStructureSignature script;
          hash = generateHash u content
      in \<lparr>fp_id = fst env,
          fp_scriptId = script_id script,
          fp_hash = hash,
          fp_keywords = keywords,
          fp_structure = structure,
          fp_createdAt = snd env\<rparr>)"

subsection \<open>Similarity of two fingerprints\<close>

definition calculateKeywordSimilarity :: "jsstring list \<Rightarrow> jsstring list \<Rightarrow> number" where
  "calculateKeywordSimilarity keywords1 keywords2 =
     (let set1 = new_Set keywords1;
          set2 = new_Set keywords2;
          intersection = new_Set (filter (\<lambda>x. x \<in> set set2) set1);
          union = new_Set (set1 @ set2)
      in num_div (number_of_nat (length intersection)) (number_of_nat (length union)))"

text \<open>
  The method \<open>calculateStructureSimilarity\<close> of the service (the detectors have a
  function of the same name on texts).
\<close>

definition signature_parts :: "jsstring \<Rightarrow> jsstring list" where
  "signature_parts structure = split_on (\<lambda>c. c = 0x7C) structure"

definition calculateSignatureSimilarity :: "jsstring \<Rightarrow> jsstring \<Rightarrow> number" where
  "calculateSignatureSimilarity structure1 structure2 =
     (let parts1 = signature_parts structure1;
          parts2 = signature_parts structure2
      in if length parts1 \<noteq> length parts2 then Fin 0
         else (let matchCount = length (filter (\<lambda>i. parts1 ! i = parts2 ! i) [0..<length parts1])
               in num_div (number_of_nat matchCount) (number_of_nat (length parts1))))"

definition calculateFingerprintSimilarity :: "ContentFingerprint \<Rightarrow> ContentFingerprint \<Rightarrow> number" where
  "calculateFingerprintSimilarity fp1 fp2 =
     (if fp_hash fp1 = fp_hash fp2 then Fin 1
      else (let keywordSimilarity = calculateKeywordSimilarity (fp_keywords fp1) (fp_keywords fp2);
                structureSimilarity = calculateSignatureSimilarity (fp_structure fp1) (fp_structure fp2)
            in num_add (num_mul keywordSimilarity (to_double (6 / 10)))
                       (num_mul structureSimilarity (to_double (4 / 10)))))"

definition findDifferences :: "ContentFingerprint \<Rightarrow> ContentFingerprint \<Rightarrow> jsstring list" where
  "findDifferences fp1 fp2 =
     (let uniqueKeywords = filter (\<lambda>k. k \<notin> set (fp_keywords fp2)) (fp_keywords fp1)
      in (if length uniqueKeywords > 0
          then [[0x65B0, 0x589E, 0x5173, 0x952E, 0x8BCD, 0x003A, 0x0020] @
                join (ascii '', '') (take 5 uniqueKeywords)]
          else []) @
         (if fp_structure fp1 \<noteq> fp_structure fp2
          then [[0x6BB5, 0x843D, 0x7ED3, 0x6784, 0x4E0D, 0x540C]]
          else []))"

definition generateUniquenessSuggestions :: "number \<Rightarrow> jsstring list" where
  "generateUniquenessSuggestions similarity =
     (if num_ge similarity (to_double (8 / 10)) then
        [[0x26A0, 0xFE0F, 0x0020, 0x5185, 0x5BB9, 0x4E0E, 0x5386, 0x53F2, 0x811A, 0x672C, 0x9AD8,
         0x5EA6, 0x76F8, 0x4F3C, 0xFF0C, 0x5EFA, 0x8BAE, 0x5B8C, 0x5168, 0x91CD, 0x5199],
         [0x5C1D, 0x8BD5, 0x66F4, 0x6362, 0x89E3, 0x8BF4, 0x89D2, 0x5EA6, 0x6216, 0x5207, 0x5165,
          0x70B9],
         [0x4F7F, 0x7528, 0x4E0D, 0x540C, 0x7684, 0x6848, 0x4F8B, 0x6216, 0x6570, 0x636E, 0x652F,
          0x6491]]
      else if num_ge similarity (Fin (1 / 2)) then
        [[0x5185, 0x5BB9, 0x4E0E, 0x5386, 0x53F2, 0x811A, 0x672C, 0x6709, 0x4E00, 0x5B9A, 0x76F8,
         0x4F3C, 0x5EA6],
         [0x5EFA, 0x8BAE, 0x8C03, 0x6574, 0x90E8, 0x5206, 0x6BB5, 0x843D, 0x8868, 0x8FF0],
         [0x589E, 0x52A0, 0x65B0, 0x7684, 0x89C2, 0x70B9, 0x6216, 0x89C1, 0x89E3]]
      else
        [[0x5185, 0x5BB9, 0x4E0E, 0x5386, 0x53F2, 0x811A, 0x672C, 0x7565, 0x6709, 0x76F8, 0x4F3C],
         [0x53EF, 0x8FDB, 0x884C, 0x5FAE, 0x8C03, 0x63D0, 0x9AD8, 0x552F, 0x4E00, 0x6027]])"

subsection \<open>Checking and registering\<close>

text \<open>The loop over the history: it returns at the first entry that reaches the threshold.\<close>

fun scan_history ::
  "number \<Rightarrow> ContentFingerprint \<Rightarrow> (jsstring \<times> ContentFingerprint) list \<Rightarrow>
   UniquenessCheckResult option" where
  "scan_history threshold fingerprint [] = None"
| "scan_history threshold fingerprint ((key, existingFp) # rest) =
     (let similarity = calculateFingerprintSimilarity fingerprint existingFp
      in if num_ge similarity threshold then
           Some \<lparr>res_isUnique = False,
                 res_similarity = similarity,
                 res_matchedScript =
                   Some \<lparr>ms_id = fp_scriptId existingFp,
                         ms_title = [0x5386, 0x53F2, 0x811A, 0x672C],
                         ms_createdAt = fp_createdAt existingFp\<rparr>,
                 res_differences = findDifferences fingerprint existingFp,
                 res_suggestions = generateUniquenessSuggestions similarity\<rparr>
         else scan_history threshold fingerprint rest)"

definition checkUniqueness ::
  "unicode \<Rightarrow> UniquenessService \<Rightarrow> jsstring \<times> jsstring \<Rightarrow> ScriptData \<Rightarrow>
   UniquenessCheckResult" where
  "checkUniqueness u svc env script =
     (let fingerprint = generateFingerprint u env script
      in case (if ucfg_checkHistory (us_config svc)
               then scan_history (ucfg_similarityThreshold (us_config svc)) fingerprint
                      (us_fingerprints svc)
               else None) of
           Some found \<Rightarrow> found
         | None \<Rightarrow>
             \<lparr>res_isUnique = True,
              res_similarity = Fin 0,
              res_matchedScript = None,
              res_differences = [],
              res_suggestions = [[0x5185, 0x5BB9, 0x552F, 0x4E00, 0x6027, 0x826F,
                                 0x597D]]\<rparr>)"

definition registerScript ::
  "unicode \<Rightarrow> UniquenessService \<Rightarrow> jsstring \<times> jsstring \<Rightarrow> ScriptData \<Rightarrow>
   UniquenessService" where
  "registerScript u svc env script =
     (let fingerprint = generateFingerprint u env script;
          fingerprints = Map_set (fp_id fingerprint) fingerprint (us_fingerprints svc)
      in svc\<lparr>us_fingerprints := fingerprints, us_stored := Some fingerprints\<rparr>)"

subsection \<open>The retry loop\<close>

text \<open>
  \<open>ensureUniqueness\<close> is asynchronous: it awaits the collaborator \<open>rewriteFn\<close>, whose
  promise may reject. The \<open>n\<close>-th invocation of the collaborator (counted from 0) on a
  script is \<open>rewriteFn n script\<close>, either an error or the rewritten script; the outcome of
  \<open>ensureUniqueness\<close> is the rejection or the value of its promise. \<open>env n\<close> is what the
  \<open>n\<close>-th call of \<open>generateFingerprint\<close> draws from the clock and the random generator.
  Beside the outcome and the service, the model returns the calls made, in order.
\<close>

record EnsureResult =
  ens_script :: ScriptData
  ens_attempts :: nat
  ens_isUnique :: bool

datatype call = CheckCall ScriptData | RegisterCall ScriptData | RewriteCall ScriptData

function ensure_loop ::
  "unicode \<Rightarrow> (nat \<Rightarrow> jsstring \<times> jsstring) \<Rightarrow> (nat \<Rightarrow> ScriptData \<Rightarrow> 'e + ScriptData) \<Rightarrow>
   UniquenessService \<Rightarrow> call list \<Rightarrow> ScriptData \<Rightarrow> nat \<Rightarrow>
   ('e + EnsureResult) \<times> UniquenessService \<times> call list" where
  "ensure_loop u env rewriteFn svc calls currentScript attempts =
     (if int attempts < ucfg_maxRewriteAttempts (us_config svc) then
        (let check = checkUniqueness u svc (env attempts) currentScript;
             calls1 = calls @ [CheckCall currentScript]
         in if res_isUnique check then
              (Inr \<lparr>ens_script = currentScript, ens_attempts = attempts, ens_isUnique = True\<rparr>,
               registerScript u svc (env (attempts + 1)) currentScript,
               calls1 @ [RegisterCall currentScript])
            else if \<not> ucfg_autoRewrite (us_config svc) then
              (Inr \<lparr>ens_script = currentScript, ens_attempts = attempts, ens_isUnique = False\<rparr>,
               svc, calls1)
            else
              (case rewriteFn attempts currentScript of
                 Inl e \<Rightarrow> (Inl e, svc, calls1 @ [RewriteCall currentScript])
               | Inr rewritten \<Rightarrow>
                   ensure_loop u env rewriteFn svc (calls1 @ [RewriteCall currentScript])
                     rewritten (attempts + 1)))
      else
        (Inr \<lparr>ens_script = currentScript, ens_attempts = attempts, ens_isUnique = False\<rparr>,
         svc, calls))"
  by pat_completeness auto
termination
  by (relation "measure (\<lambda>(u, env, rewriteFn, svc, calls, currentScript, attempts).
                  nat (ucfg_maxRewriteAttempts (us_config svc) - int attempts))") auto

declare ensure_loop.simps [simp del]

definition ensureUniqueness ::
  "unicode \<Rightarrow> (nat \<Rightarrow> jsstring \<times> jsstring) \<Rightarrow> UniquenessService \<Rightarrow> ScriptData \<Rightarrow>
   (nat \<Rightarrow> ScriptData \<Rightarrow> 'e + ScriptData) \<Rightarrow>
   ('e + EnsureResult) \<times> UniquenessService \<times> call list" where
  "ensureUniqueness u env svc script rewriteFn = ensure_loop u env rewriteFn svc [] script 0"

text \<open>The scripts checked, and the scripts handed to the collaborator, in call order.\<close>

definition check_calls :: "call list \<Rightarrow> ScriptData list" where
  "check_calls calls = concat (map (\<lambda>c. case c of CheckCall s \<Rightarrow> [s] | _ \<Rightarrow> []) calls)"

definition rewrite_calls :: "call list \<Rightarrow> ScriptData list" where
  "rewrite_calls calls = concat (map (\<lambda>c. case c of RewriteCall s \<Rightarrow> [s] | _ \<Rightarrow> []) calls)"

subsection \<open>Randomisation\<close>

text \<open>
  \<open>rnd k\<close> is the value of the \<open>k\<close>-th call of \<open>Math.random()\<close> (counted from 0) and
  \<open>rand_index rnd k n\<close> is \<open>Math.floor(Math.random() * n)\<close> at that call. The product
  is taken exactly here; rounded to a double it stays below \<open>n\<close>, so that rounding can
  only change which index below \<open>n\<close> is drawn, and nothing below depends on which.
\<close>

definition rand_index :: "(nat \<Rightarrow> rat) \<Rightarrow> nat \<Rightarrow> nat \<Rightarrow> nat" where
  "rand_index rnd k n = nat \<lfloor>rnd k * of_nat n\<rfloor>"

text \<open>
  \<open>content.replace(new RegExp(original, 'g'), replacement)\<close> for a non-empty pattern
  without metacharacters and a replacement without \<open>$\<close>: every occurrence, from the
  left, without overlap. \<open>skip\<close> counts the code units of a match still to be passed.
\<close>

fun replace_from :: "jsstring \<Rightarrow> jsstring \<Rightarrow> nat \<Rightarrow> jsstring \<Rightarrow> jsstring" where
  "replace_from pat rep skip [] = []"
| "replace_from pat rep (Suc skip) (c # cs) = replace_from pat rep skip cs"
| "replace_from pat rep 0 (c # cs) =
     (if take (length pat) (c # cs) = pat then rep @ replace_from pat rep (length pat - 1) cs
      else c # replace_from pat rep 0 cs)"

definition replace_all :: "jsstring \<Rightarrow> jsstring \<Rightarrow> jsstring \<Rightarrow> jsstring" where
  "replace_all pat rep s = replace_from pat rep 0 s"

definition variations :: "jsstring list list" where
  "variations =
     [[[0x5927, 0x5BB6, 0x597D, 0xFF0C, 0x4ECA, 0x5929],
       [0x6B22, 0x8FCE, 0x6765, 0x5230, 0x672C, 0x671F, 0xFF0C],
       [0x4ECA, 0x5929, 0x6211, 0x4EEC, 0x6765, 0x804A, 0x804A],
       [0x8FD9, 0x671F, 0x5185, 0x5BB9, 0x6211, 0x4EEC, 0x8981, 0x63A2, 0x8BA8]],
      [[0x63A5, 0x4E0B, 0x6765],
       [0x7136, 0x540E],
       [0x968F, 0x540E],
       [0x63A5, 0x7740]],
      [[0x975E, 0x5E38, 0x91CD, 0x8981],
       [0x503C, 0x5F97, 0x6CE8, 0x610F],
       [0x5173, 0x952E, 0x5728, 0x4E8E],
       [0x6838, 0x5FC3, 0x8981, 0x70B9, 0x662F]],
      [[0x603B, 0x7ED3, 0x4E00, 0x4E0B],
       [0x603B, 0x7684, 0x6765, 0x8BF4],
       [0x5F52, 0x7EB3, 0x8D77, 0x6765],
       [0x7EFC, 0x4E0A, 0x6240, 0x8FF0]]]"

text \<open>The Fisher-Yates loop of \<open>shuffleArray\<close>, for \<open>i\<close> from \<open>length - 1\<close> down to 1.\<close>

fun shuffle_loop :: "(nat \<Rightarrow> rat) \<Rightarrow> nat \<Rightarrow> nat \<Rightarrow> 'a list \<Rightarrow> 'a list" where
  "shuffle_loop rnd k 0 result = result"
| "shuffle_loop rnd k (Suc i) result =
     (let j = rand_index rnd k (Suc i + 1)
      in shuffle_loop rnd (k + 1) i (result[Suc i := result ! j, j := result ! Suc i]))"

definition shuffleArray :: "(nat \<Rightarrow> rat) \<Rightarrow> nat \<Rightarrow> 'a list \<Rightarrow> 'a list" where
  "shuffleArray rnd k array = shuffle_loop rnd k (length array - 1) array"

text \<open>
  \<open>addRandomness\<close> draws once for each of the four phrase groups (draws 0 to 3), then
  for the shuffle (from draw 4). The new segment ids are built from the clock, the index
  and a random suffix: \<open>newId index\<close>. \<open>now\<close> is the time stamp.
\<close>

definition replace_group :: "(nat \<Rightarrow> rat) \<Rightarrow> jsstring \<Rightarrow> nat \<times> jsstring list \<Rightarrow> jsstring" where
  "replace_group rnd content kg =
     (case kg of
        (k, original # alternatives) \<Rightarrow>
          replace_all original (alternatives ! rand_index rnd k (length alternatives)) content
      | (k, []) \<Rightarrow> content)"

definition addRandomness ::
  "UniquenessConfig \<Rightarrow> (nat \<Rightarrow> rat) \<Rightarrow> (nat \<Rightarrow> jsstring) \<Rightarrow> jsstring \<Rightarrow> ScriptData \<Rightarrow> ScriptData" where
  "addRandomness config rnd newId now script =
     (if \<not> ucfg_addRandomness config then script
      else
        (let content = foldl (replace_group rnd) (script_content script) (enumerate 0 variations);
             segments = script_segments script;
             segments' =
               (if length segments > 3 then
                  (let middle = take (length segments - 2) (drop 1 segments);
                       shuffled = shuffleArray rnd 4 middle
                   in take 1 segments @ shuffled @ drop (1 + length middle) segments)
                else segments)
         in script\<lparr>script_content := content,
                   script_segments :=
                     map (\<lambda>(index, s). s\<lparr>seg_id := newId index\<rparr>) (enumerate 0 segments'),
                   script_updatedAt := now\<rparr>))"

section \<open>Variant selection (DedupVariantService)\<close>

datatype DedupVariantType =
  Conservative | Balanced | Aggressive | Creative | Academic | Casual | Poetic | Technical

record DedupVariant =
  var_id :: DedupVariantType
  var_name :: jsstring
  var_description :: jsstring
  var_intensity :: number
  var_strategies :: "jsstring list"
  var_synonymRatio :: number
  var_restructuring :: bool
  var_expansion :: bool
  var_contraction :: bool

text \<open>\<open>Object.values(DEDUP_VARIANTS)\<close>, in the order of the object literal.\<close>

definition DEDUP_VARIANTS :: "DedupVariant list" where
  "DEDUP_VARIANTS =
    [\<lparr>var_id = Conservative,
      var_name = [0x4FDD, 0x5B88, 0x578B],
      var_description =
        [0x6700, 0x5C0F, 0x5316, 0x6539, 0x52A8, 0xFF0C, 0x4FDD, 0x6301, 0x539F, 0x610F, 0x548C,
         0x7ED3, 0x6784],
      var_intensity = to_double (1 / 5),
      var_strategies = [ascii ''synonym_replace'', ascii ''minor_reorder''],
      var_synonymRatio = to_double (3 / 10),
      var_restructuring = False,
      var_expansion = False,
      var_contraction = False\<rparr>,
     \<lparr>var_id = Balanced,
      var_name = [0x5E73, 0x8861, 0x578B],
      var_description =
        [0x9002, 0x5EA6, 0x6539, 0x5199, 0xFF0C, 0x5E73, 0x8861, 0x539F, 0x521B, 0x6027, 0x548C,
         0x53EF, 0x8BFB, 0x6027],
      var_intensity = Fin (1 / 2),
      var_strategies = [ascii ''synonym_replace'', ascii ''sentence_restructure'', ascii ''transition_change''],
      var_synonymRatio = Fin (1 / 2),
      var_restructuring = True,
      var_expansion = False,
      var_contraction = False\<rparr>,
     \<lparr>var_id = Aggressive,
      var_name = [0x6FC0, 0x8FDB, 0x578B],
      var_description =
        [0x5927, 0x5E45, 0x6539, 0x5199, 0xFF0C, 0x6700, 0x5927, 0x5316, 0x539F, 0x521B, 0x6027],
      var_intensity = to_double (4 / 5),
      var_strategies = [ascii ''synonym_replace'', ascii ''sentence_restructure'', ascii ''paragraph_reorder'', ascii ''voice_change'', ascii ''perspective_shift''],
      var_synonymRatio = to_double (7 / 10),
      var_restructuring = True,
      var_expansion = True,
      var_contraction = True\<rparr>,
     \<lparr>var_id = Creative,
      var_name = [0x521B, 0x610F, 0x578B],
      var_description =
        [0x5B8C, 0x5168, 0x91CD, 0x5199, 0xFF0C, 0x6CE8, 0x5165, 0x65B0, 0x89C2, 0x70B9],
      var_intensity = Fin 1,
      var_strategies = [ascii ''complete_rewrite'', ascii ''new_examples'', ascii ''fresh_metaphors'', ascii ''different_angle''],
      var_synonymRatio = to_double (9 / 10),
      var_restructuring = True,
      var_expansion = True,
      var_contraction = True\<rparr>,
     \<lparr>var_id = Academic,
      var_name = [0x5B66, 0x672F, 0x578B],
      var_description =
        [0x6B63, 0x5F0F, 0x5316, 0x6539, 0x5199, 0xFF0C, 0x589E, 0x52A0, 0x5B66, 0x672F, 0x6027],
      var_intensity = to_double (3 / 5),
      var_strategies = [ascii ''formal_vocabulary'', ascii ''passive_voice'', ascii ''citation_style'', ascii ''technical_terms''],
      var_synonymRatio = to_double (3 / 5),
      var_restructuring = True,
      var_expansion = True,
      var_contraction = False\<rparr>,
     \<lparr>var_id = Casual,
      var_name = [0x53E3, 0x8BED, 0x578B],
      var_description =
        [0x53E3, 0x8BED, 0x5316, 0x6539, 0x5199, 0xFF0C, 0x66F4, 0x63A5, 0x5730, 0x6C14],
      var_intensity = Fin (1 / 2),
      var_strategies = [ascii ''colloquial_phrases'', ascii ''rhetorical_questions'', ascii ''personal_pronouns'', ascii ''contractions''],
      var_synonymRatio = to_double (2 / 5),
      var_restructuring = True,
      var_expansion = False,
      var_contraction = True\<rparr>,
     \<lparr>var_id = Poetic,
      var_name = [0x8BD7, 0x610F, 0x578B],
      var_description =
        [0x6587, 0x5B66, 0x5316, 0x6539, 0x5199, 0xFF0C, 0x589E, 0x52A0, 0x4FEE, 0x8F9E],
      var_intensity = to_double (7 / 10),
      var_strategies = [ascii ''metaphors'', ascii ''parallelism'', ascii ''rhythm'', ascii ''imagery'', ascii ''emotional_language''],
      var_synonymRatio = to_double (3 / 5),
      var_restructuring = True,
      var_expansion = True,
      var_contraction = False\<rparr>,
     \<lparr>var_id = Technical,
      var_name = [0x6280, 0x672F, 0x578B],
      var_description =
        [0x4E13, 0x4E1A, 0x5316, 0x6539, 0x5199, 0xFF0C, 0x7CBE, 0x786E, 0x8868, 0x8FBE],
      var_intensity = to_double (3 / 5),
      var_strategies = [ascii ''precise_terminology'', ascii ''logical_structure'', ascii ''data_driven'', ascii ''step_by_step''],
      var_synonymRatio = Fin (1 / 2),
      var_restructuring = True,
      var_expansion = True,
      var_contraction = False\<rparr>]"

text \<open>
  \<open>selectVariant(exclude?)\<close> on the set \<open>usedVariants\<close> of the service; \<open>r\<close> is the value
  of \<open>Math.random()\<close>. The method calls itself after clearing the set, with nothing that
  bounds the recursion: a call that does not return is \<open>None\<close>.
\<close>

definition is_excluded :: "DedupVariantType list option \<Rightarrow> DedupVariantType \<Rightarrow> bool" where
  "is_excluded exclude v = (case exclude of None \<Rightarrow> False | Some ex \<Rightarrow> v \<in> set ex)"

partial_function (option) selectVariant ::
  "DedupVariantType set \<Rightarrow> DedupVariantType list option \<Rightarrow> rat \<Rightarrow>
   (DedupVariant \<times> DedupVariantType set) option" where
  "selectVariant usedVariants exclude r =
     (let available = filter (\<lambda>v. var_id v \<notin> usedVariants \<and> \<not> is_excluded exclude (var_id v))
                        DEDUP_VARIANTS
      in if length available = 0 then selectVariant {} exclude r
         else (let selected = available ! nat \<lfloor>r * of_nat (length available)\<rfloor>
               in Some (selected, insert (var_id selected) usedVariants)))"

section \<open>Notions of the specification\<close>

text \<open>
  The edit distance of the prefix of length \<open>i\<close> of \<open>s\<close> and the prefix of length \<open>j\<close>
  of \<open>t\<close>, by the classic recurrence.
\<close>

fun edit_distance :: "'a list \<Rightarrow> 'a list \<Rightarrow> nat \<Rightarrow> nat \<Rightarrow> nat" where
  "edit_distance s t 0 j = j"
| "edit_distance s t (Suc i) 0 = Suc i"
| "edit_distance s t (Suc i) (Suc j) =
     min (min (edit_distance s t i (Suc j) + 1) (edit_distance s t (Suc i) j + 1))
         (edit_distance s t i j + (if s ! i = t ! j then 0 else 1))"

text \<open>
  The state of the matrix when rows \<open>0..filled\<close> are complete: a complete row \<open>r\<close> holds
  the distances of the prefix of length \<open>r\<close> of \<open>s\<close> to all prefixes of \<open>t\<close>, the other
  rows hold their first cell only.
\<close>

definition lev_state :: "'a list \<Rightarrow> 'a list \<Rightarrow> nat \<Rightarrow> nat \<Rightarrow> nat \<Rightarrow> nat list list" where
  "lev_state s t m n filled =
     map (\<lambda>r. if r \<le> filled then map (edit_distance s t r) [0..<Suc n] else [r]) [0..<Suc m]"

text \<open>
  A result relates two positions of a segment list when its source is the segment at
  some index and its target the segment at a later index.
\<close>

definition from_positions :: "ScriptSegment list \<Rightarrow> DuplicateResult \<Rightarrow> bool" where
  "from_positions segments r \<longleftrightarrow>
     list_ex (\<lambda>(i, j). source_id r = seg_id (segments ! i) \<and> target_id r = seg_id (segments ! j))
             (index_pairs (length segments))"


text \<open>
  A Unicode scalar value is a code point that is no surrogate. A string is well formed
  (\<open>String.prototype.isWellFormed\<close>) when it has no surrogate outside a pair: all its
  code points are scalar values.
\<close>

definition scalar_value :: "int \<Rightarrow> bool" where
  "scalar_value c \<longleftrightarrow> 0 \<le> c \<and> c < 0x110000 \<and> \<not> (0xD800 \<le> c \<and> c \<le> 0xDFFF)"

definition isWellFormed :: "jsstring \<Rightarrow> bool" where
  "isWellFormed s = list_all scalar_value (code_points s)"

text \<open>
  What the proofs below use of the case tables: the lower-case mapping of a scalar value
  consists of scalar values, and lower-casing leaves each of them as it is, whatever
  stands around it. The tables of Unicode have this property.
\<close>

definition lowercase_stable :: "unicode \<Rightarrow> bool" where
  "lowercase_stable u \<longleftrightarrow>
     (\<forall>preceding c following. scalar_value c \<longrightarrow>
        (\<forall>d \<in> set (lowercase_mapping u preceding c following).
           scalar_value d \<and>
           (\<forall>preceding' following'. lowercase_mapping u preceding' d following' = [d])))"

text \<open>
  The value of the originality formula for \<open>d\<close> flagged segments out of \<open>t\<close>, in
  exact arithmetic; by convention 100 when there is no segment.
\<close>

definition exact_score :: "nat \<Rightarrow> nat \<Rightarrow> rat" where
  "exact_score d t = (if t = 0 then 100 else max 0 (100 - 100 * of_nat d / of_nat t))"

section \<open>Example inputs\<close>

text \<open>
  An excerpt of the case tables of Unicode: the capital letters of Basic Latin and of
  Latin-1 Supplement, the Kelvin sign, and the capital letters of Deseret (which lie
  above \<open>0xFFFF\<close>). No other cased letter occurs in the examples.
\<close>

definition ex_lowercase_mapping :: "int \<Rightarrow> int list" where
  "ex_lowercase_mapping c =
     (if (0x41 \<le> c \<and> c \<le> 0x5A) \<or> (0xC0 \<le> c \<and> c \<le> 0xDE \<and> c \<noteq> 0xD7) then [c + 0x20]
      else if c = 0x212A then [0x6B]
      else if 0x10400 \<le> c \<and> c \<le> 0x10427 then [c + 0x28]
      else [c])"

definition ex_unicode :: unicode where
  "ex_unicode = \<lparr>lowercase_mapping = (\<lambda>preceding c following. ex_lowercase_mapping c)\<rparr>"

text \<open>
  A script of one segment, \<open>hello world\<close>; a fingerprint with other keywords, another
  hash and the same structure signature; a history that holds this fingerprint before
  the script's own one.
\<close>

definition ex_segment :: ScriptSegment where
  "ex_segment =
     \<lparr>seg_id = ascii ''seg-1'', seg_startTime = Fin 0, seg_endTime = Fin 5,
      seg_content = ascii ''hello world'', seg_type = ascii ''narration''\<rparr>"

definition ex_script :: ScriptData where
  "ex_script =
     \<lparr>script_id = ascii ''script_1'', script_title = ascii ''demo'',
      script_content = ascii ''hello world'', script_segments = [ex_segment],
      script_createdAt = ascii ''2024-01-01T00:00:00.000Z'',
      script_updatedAt = ascii ''2024-01-01T00:00:00.000Z''\<rparr>"

definition ex_env :: "nat \<Rightarrow> jsstring \<times> jsstring" where
  "ex_env n = (ascii ''fp_'' @ dec_string n, ascii ''2024-01-02T00:00:00.000Z'')"

definition ex_other_fp :: ContentFingerprint where
  "ex_other_fp =
     \<lparr>fp_id = ascii ''fp_a'', fp_scriptId = ascii ''script_0'', fp_hash = ascii ''0'',
      fp_keywords = [ascii ''foo''], fp_structure = ascii ''narration:11:1'',
      fp_createdAt = ascii ''2023-12-31T00:00:00.000Z''\<rparr>"

definition ex_own_fp :: ContentFingerprint where
  "ex_own_fp =
     generateFingerprint ex_unicode (ascii ''fp_b'', ascii ''2024-01-01T00:00:00.000Z'') ex_script"

definition ex_service :: UniquenessService where
  "ex_service =
     \<lparr>us_config = default_UniquenessConfig,
      us_fingerprints = [(ascii ''fp_a'', ex_other_fp), (ascii ''fp_b'', ex_own_fp)],
      us_stored = None\<rparr>"

text \<open>
  A service with an empty history that allows no rewrite attempt, and a collaborator
  that always fails.
\<close>

definition ex_zero_service :: UniquenessService where
  "ex_zero_service =
     \<lparr>us_config = default_UniquenessConfig\<lparr>ucfg_maxRewriteAttempts := 0\<rparr>,
      us_fingerprints = [],
      us_stored = None\<rparr>"

definition ex_failing_rewrite :: "nat \<Rightarrow> ScriptData \<Rightarrow> string + ScriptData" where
  "ex_failing_rewrite n script = Inl ''generation failed''"

text \<open>
  A script of three segments, the second repeating the first, and the result that
  reports the repetition.
\<close>

definition ex_three_script :: ScriptData where
  "ex_three_script =
     ex_script\<lparr>script_segments :=
       [ex_segment,
        ex_segment\<lparr>seg_id := ascii ''seg-2''\<rparr>,
        ex_segment\<lparr>seg_id := ascii ''seg-3'', seg_content := ascii ''something else''\<rparr>]\<rparr>"

definition ex_duplicate :: DuplicateResult where
  "ex_duplicate =
     \<lparr>dup_id = ascii ''dup_exact_1'',
      dup_type = Exact,
      dup_source = seg_ref ex_segment,
      dup_target = seg_ref (ex_segment\<lparr>seg_id := ascii ''seg-2''\<rparr>),
      dup_similarity = Fin 1,
      dup_suggestion = []\<rparr>"

definition ex_empty_script :: ScriptData where
  "ex_empty_script = ex_script\<lparr>script_content := [], script_segments := []\<rparr>"

text \<open>A script of five segments, a random generator and an id generator.\<close>

definition ex_five_script :: ScriptData where
  "ex_five_script =
     ex_script\<lparr>script_segments :=
       [ex_segment,
        ex_segment\<lparr>seg_id := ascii ''seg-2'', seg_content := ascii ''two''\<rparr>,
        ex_segment\<lparr>seg_id := ascii ''seg-3'', seg_content := ascii ''three''\<rparr>,
        ex_segment\<lparr>seg_id := ascii ''seg-4'', seg_content := ascii ''four''\<rparr>,
        ex_segment\<lparr>seg_id := ascii ''seg-5'', seg_content := ascii ''five''\<rparr>]\<rparr>"

definition ex_rnd :: "nat \<Rightarrow> rat" where
  "ex_rnd k = 1 / 2"

definition ex_newId :: "nat \<Rightarrow> jsstring" where
  "ex_newId index = ascii ''segment_'' @ dec_string index"



text \<open>
  Two scripts made of words of one letter: neither has a keyword, and their hashes
  differ.
\<close>

definition ex_letters_script :: ScriptData where
  "ex_letters_script =
     ex_script\<lparr>script_content := ascii ''a b c'',
               script_segments := [ex_segment\<lparr>seg_content := ascii ''a b c''\<rparr>]\<rparr>"

definition ex_other_letters_script :: ScriptData where
  "ex_other_letters_script =
     ex_script\<lparr>script_id := ascii ''script_2'', script_content := ascii ''x y z'',
               script_segments := [ex_segment\<lparr>seg_content := ascii ''x y z''\<rparr>]\<rparr>"

section \<open>Rounding to a double\<close>

text \<open>
  What the proofs below need of the rounding: it is exact on the integers up to
  \<open>2 ^ 52\<close>, it does not cross such an integer, and below \<open>2 ^ m\<close> it moves a
  value by at most \<open>2 ^ (m - 53)\<close>.
\<close>

lemma pow2_powi: "pow2 e = 2 powi e"
  by (simp add: pow2_def power_int_def field_simps)

lemma pow2_pos [simp]: "0 < pow2 e"
  by (simp add: pow2_powi)

lemma pow2_diff: "pow2 (a - b) = pow2 a / pow2 b"
  by (simp add: pow2_powi power_int_diff)

lemma pow2_le_52: "pow2 a \<le> pow2 52 \<Longrightarrow> a \<le> 52"
  using power_int_le_imp_le_exp [of "2 :: rat" a 52] by (simp add: pow2_powi)

lemma pow2_ge_1: "0 \<le> e \<Longrightarrow> 1 \<le> pow2 e"
  by (simp add: pow2_powi)

lemma bit_length_bounds:
  "0 < n \<Longrightarrow> 1 \<le> bit_length n \<and> 2 ^ nat (bit_length n - 1) \<le> n \<and> n < 2 ^ nat (bit_length n)"
proof (induction n rule: bit_length.induct)
  case (1 n)
  show ?case
  proof (cases "n = 1")
    case True
    have "bit_length 1 = 1"
      by (subst bit_length.simps, subst bit_length.simps) simp
    with True show ?thesis by simp
  next
    case False
    with "1.prems" have pos: "0 < n div 2" by simp
    from "1.prems" have n: "\<not> n \<le> 0" by simp
    note ih = "1.IH" [OF n pos]
    have bl: "bit_length n = 1 + bit_length (n div 2)"
      using n by (subst bit_length.simps) simp
    define b where "b = bit_length (n div 2)"
    from ih have b1: "1 \<le> b" and lo: "2 ^ nat (b - 1) \<le> n div 2" and hi: "n div 2 < 2 ^ nat b"
      by (simp_all add: b_def)
    have nb: "nat b = Suc (nat (b - 1))" using b1 by simp
    have "2 * 2 ^ nat (b - 1) \<le> n" using lo by simp
    hence lo': "2 ^ nat b \<le> n" by (simp add: nb)
    have "n div 2 + 1 \<le> 2 ^ nat b" using hi by simp
    hence "n < 2 * 2 ^ nat b" by linarith
    hence hi': "n < 2 ^ nat (1 + b)" using b1 by (simp add: nat_add_distrib)
    show ?thesis using b1 lo' hi' by (simp add: bl b_def [symmetric])
  qed
qed

text \<open>\<open>exponent_of\<close> is the exponent: \<open>2 ^ e \<le> x < 2 ^ (e + 1)\<close>.\<close>

lemma exponent_of_bounds:
  assumes "0 < x"
  shows "pow2 (exponent_of x) \<le> x \<and> x < pow2 (exponent_of x + 1)"
proof -
  obtain p q where pq: "quotient_of x = (p, q)"
    by (cases "quotient_of x")
  have q: "0 < q"
    using quotient_of_denom_pos [OF pq] .
  have x: "x = of_int p / of_int q"
    using quotient_of_div [OF pq] .
  have p: "0 < p"
    using assms q by (simp add: x zero_less_divide_iff)
  define bp where "bp = bit_length p"
  define bq where "bq = bit_length q"
  from bit_length_bounds [OF p] have bp: "1 \<le> bp" "2 ^ nat (bp - 1) \<le> p" "p < 2 ^ nat bp"
    by (simp_all add: bp_def)
  from bit_length_bounds [OF q] have bq: "1 \<le> bq" "2 ^ nat (bq - 1) \<le> q" "q < 2 ^ nat bq"
    by (simp_all add: bq_def)
  have low: "pow2 (bp - bq - 1) \<le> x"
  proof -
    have "pow2 (bp - bq - 1) = pow2 (bp - 1) / pow2 bq"
      using pow2_diff [of "bp - 1" bq] by (simp add: algebra_simps)
    also have "pow2 (bp - 1) = of_int (2 ^ nat (bp - 1))"
      using bp by (simp add: pow2_def)
    also have "pow2 bq = of_int (2 ^ nat bq)"
      using bq by (simp add: pow2_def)
    also have "(of_int (2 ^ nat (bp - 1)) :: rat) / of_int (2 ^ nat bq) \<le> of_int p / of_int q"
    proof (rule frac_le)
      show "(0::rat) \<le> of_int p"
        using p by simp
      show "(of_int (2 ^ nat (bp - 1)) :: rat) \<le> of_int p"
        using bp(2) by (simp only: of_int_le_iff)
      show "(0::rat) < of_int q"
        using q by simp
      show "(of_int q :: rat) \<le> of_int (2 ^ nat bq)"
        using bq(3) by (simp only: of_int_le_iff)
    qed
    finally show ?thesis
      by (simp add: x)
  qed
  have high: "x < pow2 (bp - bq + 1)"
  proof -
    have "of_int p / of_int q < (of_int (2 ^ nat bp) :: rat) / of_int (2 ^ nat (bq - 1))"
    proof (rule frac_less)
      show "(0::rat) \<le> of_int p"
        using p by simp
      show "(of_int p :: rat) < of_int (2 ^ nat bp)"
        using bp(3) by (simp only: of_int_less_iff)
      show "(0::rat) < of_int (2 ^ nat (bq - 1))"
        by simp
      show "(of_int (2 ^ nat (bq - 1)) :: rat) \<le> of_int q"
        using bq(2) by (simp only: of_int_le_iff)
    qed
    also have "(of_int (2 ^ nat bp) :: rat) = pow2 bp"
      using bp by (simp add: pow2_def)
    also have "(of_int (2 ^ nat (bq - 1)) :: rat) = pow2 (bq - 1)"
      using bq by (simp add: pow2_def)
    also have "pow2 bp / pow2 (bq - 1) = pow2 (bp - bq + 1)"
      using pow2_diff [of bp "bq - 1"] by (simp add: algebra_simps)
    finally show ?thesis
      by (simp add: x)
  qed
  show ?thesis
  proof (cases "pow2 (bp - bq) \<le> x")
    case True
    then have "exponent_of x = bp - bq"
      by (simp add: exponent_of_def pq bp_def bq_def Let_def)
    then show ?thesis
      using True high by simp
  next
    case False
    then have "exponent_of x = bp - bq - 1"
      by (simp add: exponent_of_def pq bp_def bq_def Let_def)
    then show ?thesis
      using False low by simp
  qed
qed

lemma exponent_of_le: "0 < x \<Longrightarrow> pow2 (exponent_of x) \<le> x"
  using exponent_of_bounds by blast

lemma round_half_even_ge: "of_int m \<le> y \<Longrightarrow> m \<le> round_half_even y"
proof -
  assume "of_int m \<le> y"
  hence "m \<le> \<lfloor>y\<rfloor>" by (simp add: le_floor_iff)
  thus ?thesis by (simp add: round_half_even_def Let_def)
qed

lemma round_half_even_le: 
  assumes "y \<le> of_int m" shows "round_half_even y \<le> m"
proof (cases "y = of_int m")
  case True
  thus ?thesis by (simp add: round_half_even_def)
next
  case False
  with assms have "y < of_int m" by simp
  hence "\<lfloor>y\<rfloor> < m" by (simp add: floor_less_iff)
  thus ?thesis by (simp add: round_half_even_def Let_def)
qed

text \<open>The quantum of a double below \<open>2 ^ 53\<close> divides 1.\<close>

lemma inverse_pow2: "e \<le> 52 \<Longrightarrow> 1 / pow2 (e - 52) = of_int (2 ^ nat (52 - e))"
  by (simp add: pow2_def)

lemma round_magnitude_upper:
  assumes x: "0 < x" and le: "x \<le> of_int k" and k: "k \<le> 2 ^ 52"
  shows "\<exists>y. round_magnitude x = Some y \<and> 0 \<le> y \<and> y \<le> of_int k"
proof -
  define e where "e = max (exponent_of x) (- 1022)"
  define q where "q = pow2 (e - 52)"
  define n where "n = round_half_even (x / q)"
  define N :: int where "N = 2 ^ nat (52 - e)"
  have "pow2 (exponent_of x) \<le> x" using exponent_of_le [OF x] .
  also have "x \<le> of_int k" by fact
  also have "(of_int k :: rat) \<le> of_int (2 ^ 52)" using k by (simp only: of_int_le_iff)
  also have "(of_int (2 ^ 52) :: rat) = pow2 52" by (simp add: pow2_def)
  finally have "exponent_of x \<le> 52" by (rule pow2_le_52)
  hence e: "e \<le> 52" by (simp add: e_def)
  have qpos: "0 < q" by (simp add: q_def)
  have qN: "1 / q = of_int N" using inverse_pow2 [OF e] by (simp add: q_def N_def)
  hence Nq: "of_int N * q = 1" using qpos by (simp add: field_simps)
  have N0: "(0::rat) \<le> of_int N" by (simp add: N_def)
  have "x / q = x * (1 / q)" by simp
  also have "\<dots> = x * of_int N" by (simp only: qN)
  also have "\<dots> \<le> of_int k * of_int N"
    using le N0 by (rule mult_right_mono)
  finally have "x / q \<le> of_int (k * N)" by simp
  hence "n \<le> k * N" unfolding n_def by (rule round_half_even_le)
  hence "(of_int n :: rat) \<le> of_int (k * N)" by (simp only: of_int_le_iff)
  hence "of_int n * q \<le> of_int (k * N) * q" using qpos by (intro mult_right_mono) simp_all
  also have "\<dots> = of_int k * (of_int N * q)" by (simp add: mult.assoc)
  also have "\<dots> = of_int k" by (simp only: Nq mult_1_right)
  finally have up: "of_int n * q \<le> of_int k" .
  have "(of_int 0 :: rat) \<le> x / q" using qpos x by simp
  hence "0 \<le> n" unfolding n_def by (rule round_half_even_ge)
  hence lo: "0 \<le> of_int n * q" using qpos by simp
  have "round_magnitude x = Some (of_int n * q)"
    unfolding round_magnitude_def Let_def e_def [symmetric] 
    unfolding q_def [symmetric] unfolding n_def [symmetric] using e by simp
  with up lo show ?thesis by simp
qed

lemma round_magnitude_lower:
  assumes x: "0 < x" and le: "of_int k \<le> x" and k0: "0 \<le> k" and k: "k \<le> 2 ^ 52"
  shows "round_magnitude x = None \<or> (\<exists>y. round_magnitude x = Some y \<and> of_int k \<le> y)"
proof -
  define e where "e = max (exponent_of x) (- 1022)"
  define q where "q = pow2 (e - 52)"
  define n where "n = round_half_even (x / q)"
  have qpos: "0 < q" by (simp add: q_def)
  have td: "round_magnitude x = 
     (if 1023 < e \<or> (e = 1023 \<and> 2 ^ 53 \<le> n) then None else Some (of_int n * q))"
    unfolding round_magnitude_def Let_def e_def [symmetric] 
    unfolding q_def [symmetric] unfolding n_def [symmetric] by (rule refl)
  have "of_int k \<le> of_int n * q"
  proof (cases "e \<le> 52")
    case True
    define N :: int where "N = 2 ^ nat (52 - e)"
    have qN: "1 / q = of_int N" using inverse_pow2 [OF True] by (simp add: q_def N_def)
    hence Nq: "of_int N * q = 1" using qpos by (simp add: field_simps)
    have N0: "(0::rat) \<le> of_int N" by (simp add: N_def)
    have "(of_int (k * N) :: rat) = of_int k * of_int N" by simp
    also have "\<dots> \<le> x * of_int N"
      using le N0 by (rule mult_right_mono)
    also have "\<dots> = x * (1 / q)" by (simp only: qN)
    also have "\<dots> = x / q" by simp
    finally have "k * N \<le> n" unfolding n_def by (rule round_half_even_ge)
    hence "(of_int (k * N) :: rat) \<le> of_int n" by (simp only: of_int_le_iff)
    hence "of_int (k * N) * q \<le> of_int n * q" using qpos by (intro mult_right_mono) simp_all
    moreover have "of_int (k * N) * q = of_int k * (of_int N * q)" by (simp add: mult.assoc)
    ultimately show ?thesis by (simp only: Nq mult_1_right)
  next
    case False
    hence e52: "52 < e" by simp
    hence ee: "e = exponent_of x" by (simp add: e_def max_def split: if_splits)
    have "pow2 e \<le> x" using exponent_of_le [OF x] by (simp add: ee)
    hence "pow2 e / q \<le> x / q" using qpos by (simp add: divide_right_mono)
    moreover have "pow2 e / q = of_int (2 ^ 52)"
      using pow2_diff [of e "e - 52"] by (simp add: q_def pow2_def)
    ultimately have "of_int (2 ^ 52) \<le> x / q" by simp
    hence n52: "2 ^ 52 \<le> n" unfolding n_def by (rule round_half_even_ge)
    hence "k \<le> n" using k by simp
    hence "(of_int k :: rat) \<le> of_int n" by (simp only: of_int_le_iff)
    also have "\<dots> = of_int n * 1" by simp
    also have "\<dots> \<le> of_int n * q"
    proof (rule mult_left_mono)
      show "1 \<le> q" unfolding q_def using e52 by (intro pow2_ge_1) simp
      show "(0::rat) \<le> of_int n" using n52 by simp 
    qed
    finally show ?thesis .
  qed
  thus ?thesis by (auto simp: td)
qed

text \<open>Rounding does not cross an integer below \<open>2 ^ 52\<close>.\<close>

lemma to_double_le_int:
  assumes "x \<le> of_int k" and "0 \<le> k" and "k \<le> 2 ^ 52"
  shows "to_double x = NegInf \<or> (\<exists>y. to_double x = Fin y \<and> y \<le> of_int k)"
proof -
  consider "x = 0" | "0 < x" | "x < 0" by linarith
  thus ?thesis
  proof cases
    case 1
    thus ?thesis using assms by (simp add: to_double_def)
  next
    case 2
    from round_magnitude_upper [OF 2 assms(1) assms(3)] 2 show ?thesis 
      by (auto simp: to_double_def)
  next
    case 3
    hence pos: "0 < - x" by simp
    have "of_int 0 \<le> - x" using 3 by simp
    from round_magnitude_lower [OF pos this] 
    have "round_magnitude (- x) = None \<or> (\<exists>y. round_magnitude (- x) = Some y \<and> 0 \<le> y)" by simp
    moreover have "\<bar>x\<bar> = - x" using 3 by simp
    ultimately show ?thesis using assms(2) 3 by (auto simp: to_double_def)
  qed
qed

lemma to_double_ge_int:
  assumes "of_int k \<le> x" and "0 \<le> k" and "k \<le> 2 ^ 52"
  shows "to_double x = PosInf \<or> (\<exists>y. to_double x = Fin y \<and> of_int k \<le> y)"
proof (cases "x = 0")
  case True
  thus ?thesis using assms by (simp add: to_double_def)
next
  case False
  have "(0::rat) \<le> of_int k" using assms(2) by simp
  with assms(1) False have pos: "0 < x" by linarith
  from round_magnitude_lower [OF pos assms] pos show ?thesis 
    by (auto simp: to_double_def)
qed

lemma to_double_of_int: 
  assumes "0 \<le> k" "k \<le> 2 ^ 52" shows "to_double (of_int k) = Fin (of_int k)"
  using to_double_le_int [of "of_int k" k] to_double_ge_int [of k "of_int k"] assms by auto


lemma round_half_even_near: "\<bar>of_int (round_half_even y) - y\<bar> \<le> 1 / 2"
proof -
  define f where "f = \<lfloor>y\<rfloor>"
  define r where "r = y - of_int f"
  define n where "n = round_half_even y"
  have r: "0 \<le> r" "r < 1" unfolding r_def f_def by linarith+
  have y: "y = of_int f + r" by (simp add: r_def)
  have n: "n = (if r < 1 / 2 then f else if 1 / 2 < r then f + 1 else if even f then f else f + 1)"
    unfolding n_def round_half_even_def Let_def f_def [symmetric] r_def [symmetric] by (rule refl)
  have "\<bar>of_int n - (of_int f + r)\<bar> \<le> 1 / 2"
    using r by (auto simp: n)
  thus ?thesis by (simp add: n_def y [symmetric])
qed

text \<open>Below \<open>2 ^ m\<close> the rounding error is at most half a quantum, \<open>2 ^ (m - 53)\<close>.\<close>

lemma round_magnitude_near:
  assumes x: "0 < x" and le: "x \<le> pow2 m" and m: "0 \<le> m" "m \<le> 52"
  shows "\<exists>y. round_magnitude x = Some y \<and> \<bar>y - x\<bar> \<le> pow2 (m - 53)"
proof -
  define e where "e = max (exponent_of x) (- 1022)"
  define q where "q = pow2 (e - 52)"
  define n where "n = round_half_even (x / q)"
  have "pow2 (exponent_of x) \<le> pow2 m"
    using exponent_of_le [OF x] le by simp
  hence "exponent_of x \<le> m"
    using power_int_le_imp_le_exp [of "2 :: rat" "exponent_of x" m] m by (simp add: pow2_powi)
  hence e: "e \<le> m" using m by (simp add: e_def)
  have qpos: "0 < q" by (simp add: q_def)
  have rm: "round_magnitude x = Some (of_int n * q)"
    unfolding round_magnitude_def Let_def e_def [symmetric]
    unfolding q_def [symmetric] unfolding n_def [symmetric] using e m by simp
  have "of_int n * q - x = (of_int n - x / q) * q"
    using qpos by (simp add: field_simps)
  hence "\<bar>of_int n * q - x\<bar> = \<bar>of_int n - x / q\<bar> * q"
    using qpos by (simp add: abs_mult)
  also have "\<dots> \<le> 1 / 2 * q"
    using round_half_even_near [of "x / q"] qpos unfolding n_def
    by (intro mult_right_mono) simp_all
  also have "\<dots> = pow2 (e - 53)"
    using pow2_diff [of "e - 52" 1] by (simp add: q_def pow2_def [of 1])
  also have "\<dots> \<le> pow2 (m - 53)"
    using e by (simp add: pow2_powi power_int_increasing)
  finally show ?thesis using rm by simp
qed

lemma to_double_near:
  assumes "0 \<le> x" and "x \<le> pow2 m" and "0 \<le> m" "m \<le> 52"
  shows "\<exists>y. to_double x = Fin y \<and> \<bar>y - x\<bar> \<le> pow2 (m - 53)"
proof (cases "x = 0")
  case True
  thus ?thesis by (simp add: to_double_def less_imp_le)
next
  case False
  with assms(1) have pos: "0 < x" by simp
  from round_magnitude_near [OF pos assms(2-4)] pos show ?thesis
    by (auto simp: to_double_def)
qed

section \<open>Properties of the normaliser\<close>

lemma trim_no_space:
  assumes "\<forall>c\<in>set s. \<not> is_space c"
  shows "trim s = s"
proof -
  have keep: "dropWhile is_space t = t" if "\<forall>c\<in>set t. \<not> is_space c" for t
    using that by (cases t) auto
  have "dropWhile is_space (rev s) = rev s"
    using assms by (intro keep) simp
  then show ?thesis
    using assms by (simp add: trim_def keep)
qed

lemma not_stripped_not_space: "\<not> is_stripped c \<Longrightarrow> \<not> is_space c"
  by (simp add: is_stripped_def)

text \<open>After the deletion nothing is left for \<open>trim\<close> to remove.\<close>

lemma normalizeText_eq:
  "normalizeText u x = filter (\<lambda>c. \<not> is_stripped c) (toLowerCase u x)"
  unfolding normalizeText_def by (rule trim_no_space) (auto dest: not_stripped_not_space)

text \<open>Writing scalar values as code units and reading them again gives them back.\<close>

lemma uint_code_unit: "0 \<le> k \<Longrightarrow> k < 0x10000 \<Longrightarrow> uint (of_int k :: jschar) = k"
  by (simp add: uint_word_of_int_eq take_bit_int_eq_self)

lemma code_points_plain:
  "\<not> is_high_surrogate c \<Longrightarrow> code_points (c # cs) = uint c # code_points cs"
  by (cases cs) simp_all

text \<open>The two code units of a code point from \<open>0x10000\<close> on are a surrogate pair.\<close>

lemma code_units_pair:
  assumes "scalar_value cp" and "\<not> cp < 0x10000"
  obtains h l where "code_units cp = [h, l]"
    and "0xD800 \<le> uint h" and "uint h \<le> 0xDBFF" and "0xDC00 \<le> uint l" and "uint l \<le> 0xDFFF"
    and "0x10000 + (uint h - 0xD800) * 0x400 + (uint l - 0xDC00) = cp"
proof -
  define k where "k = cp - 0x10000"
  define h :: jschar where "h = of_int (0xD800 + k div 0x400)"
  define l :: jschar where "l = of_int (0xDC00 + k mod 0x400)"
  have k: "0 \<le> k" "k < 0x100000"
    using assms by (simp_all add: k_def scalar_value_def)
  have hi: "uint h = 0xD800 + k div 0x400"
    unfolding h_def using k by (intro uint_code_unit) auto
  have lo: "uint l = 0xDC00 + k mod 0x400"
    unfolding l_def using k by (intro uint_code_unit) auto
  have cu: "code_units cp = [h, l]"
    using assms(2) by (simp only: code_units_def h_def l_def k_def if_False)
  have "0x10000 + (uint h - 0xD800) * 0x400 + (uint l - 0xDC00) = cp"
    by (simp add: hi lo k_def)
  moreover have "0xD800 \<le> uint h" "uint h \<le> 0xDBFF" "0xDC00 \<le> uint l" "uint l \<le> 0xDFFF"
    using k by (auto simp: hi lo)
  ultimately show ?thesis
    using cu that by blast
qed

lemma code_points_code_units:
  assumes "scalar_value cp"
  shows "code_points (code_units cp @ cs) = cp # code_points cs"
proof (cases "cp < 0x10000")
  case True
  with assms have u: "uint (of_int cp :: jschar) = cp"
    by (intro uint_code_unit) (simp_all add: scalar_value_def)
  have "\<not> is_high_surrogate (of_int cp)"
    using assms by (auto simp: is_high_surrogate_def word_le_def u scalar_value_def)
  then show ?thesis
    using True by (simp add: code_units_def code_points_plain u)
next
  case False
  from code_units_pair [OF assms False] obtain h l where hl: "code_units cp = [h, l]"
    "0xD800 \<le> uint h" "uint h \<le> 0xDBFF" "0xDC00 \<le> uint l" "uint l \<le> 0xDFFF"
    "0x10000 + (uint h - 0xD800) * 0x400 + (uint l - 0xDC00) = cp"
    by blast
  have "is_high_surrogate h" "is_low_surrogate l"
    using hl(2-5) by (simp_all add: is_high_surrogate_def is_low_surrogate_def word_le_def)
  then show ?thesis
    using hl(6) by (simp add: hl(1))
qed

lemma code_points_encode:
  "list_all scalar_value L \<Longrightarrow> code_points (concat (map code_units L)) = L"
  by (induction L) (simp_all add: code_points_code_units)

text \<open>No surrogate is deleted by the normaliser: it deletes whole code points.\<close>

lemma surrogate_not_stripped:
  "0xD800 \<le> uint c \<Longrightarrow> uint c \<le> 0xDFFF \<Longrightarrow> \<not> is_stripped c"
  by (auto simp: is_stripped_def is_space_def word_le_def)

lemma filter_code_units:
  assumes "scalar_value cp"
  shows "filter (\<lambda>c. \<not> is_stripped c) (code_units cp) =
         (if cp < 0x10000 \<and> is_stripped (of_int cp) then [] else code_units cp)"
proof (cases "cp < 0x10000")
  case True
  then show ?thesis by (simp add: code_units_def)
next
  case False
  from code_units_pair [OF assms False] obtain h l where hl: "code_units cp = [h, l]"
    "0xD800 \<le> uint h" "uint h \<le> 0xDBFF" "0xDC00 \<le> uint l" "uint l \<le> 0xDFFF"
    by blast
  have "\<not> is_stripped h"
    using hl(2,3) by (intro surrogate_not_stripped) simp_all
  moreover have "\<not> is_stripped l"
    using hl(4,5) by (intro surrogate_not_stripped) simp_all
  ultimately have "\<not> is_stripped h" "\<not> is_stripped l"
    by simp_all
  then show ?thesis
    using False by (simp add: hl(1))
qed

lemma filter_encode:
  "list_all scalar_value L \<Longrightarrow>
   filter (\<lambda>c. \<not> is_stripped c) (concat (map code_units L)) =
   concat (map code_units (filter (\<lambda>cp. \<not> (cp < 0x10000 \<and> is_stripped (of_int cp))) L))"
  by (induction L) (simp_all add: filter_code_units)

text \<open>
  With stable tables, lower-casing scalar values gives scalar values that lower-casing
  leaves alone.
\<close>

lemma lower_points_stable:
  assumes "lowercase_stable u" and "list_all scalar_value X"
  shows "\<forall>d \<in> set (lower_points u preceding X).
           scalar_value d \<and> (\<forall>p f. lowercase_mapping u p d f = [d])"
  using assms(2)
proof (induction X arbitrary: preceding)
  case Nil
  then show ?case by simp
next
  case (Cons c X)
  then have c: "scalar_value c" and X: "list_all scalar_value X"
    by simp_all
  have "\<forall>d \<in> set (lowercase_mapping u preceding c X).
          scalar_value d \<and> (\<forall>p f. lowercase_mapping u p d f = [d])"
    using assms(1) c unfolding lowercase_stable_def by blast
  then show ?case
    using Cons.IH [OF X] by auto
qed

lemma lower_points_fixed:
  "\<forall>d \<in> set Y. \<forall>p f. lowercase_mapping u p d f = [d] \<Longrightarrow> lower_points u preceding Y = Y"
  by (induction Y arbitrary: preceding) simp_all

text \<open>
  C9 (as amended): on a well-formed string (one without a surrogate outside a pair)
  \<open>normalizeText\<close> is idempotent: normalising the normalised text changes nothing. The
  case tables are assumed stable, as those of Unicode are.
\<close>

theorem normalizeText_idempotent_well_formed:
  assumes "lowercase_stable u" and "isWellFormed x"
  shows "normalizeText u (normalizeText u x) = normalizeText u x"
proof -
  define L where "L = lower_points u [] (code_points x)"
  define K where "K = filter (\<lambda>cp. \<not> (cp < 0x10000 \<and> is_stripped (of_int cp))) L"
  have X: "list_all scalar_value (code_points x)"
    using assms(2) by (simp add: isWellFormed_def)
  have L: "\<forall>d \<in> set L. scalar_value d \<and> (\<forall>p f. lowercase_mapping u p d f = [d])"
    unfolding L_def by (rule lower_points_stable [OF assms(1) X])
  then have scalarL: "list_all scalar_value L"
    by (simp add: list_all_iff)
  have K: "\<forall>d \<in> set K. scalar_value d \<and> (\<forall>p f. lowercase_mapping u p d f = [d])"
    using L by (simp add: K_def)
  then have scalarK: "list_all scalar_value K"
    by (simp add: list_all_iff)
  have first: "normalizeText u x = concat (map code_units K)"
    unfolding normalizeText_eq toLowerCase_def L_def [symmetric] K_def
    by (rule filter_encode [OF scalarL])
  have "toLowerCase u (concat (map code_units K)) = concat (map code_units K)"
    unfolding toLowerCase_def code_points_encode [OF scalarK]
    using lower_points_fixed [of K u "[]"] K by simp
  moreover have "filter (\<lambda>c. \<not> is_stripped c) (concat (map code_units K)) =
                 concat (map code_units K)"
    unfolding filter_encode [OF scalarK] by (simp add: K_def)
  ultimately have "normalizeText u (concat (map code_units K)) = concat (map code_units K)"
    by (simp add: normalizeText_eq)
  then show ?thesis
    by (simp add: first)
qed

lemma ex_unicode_stable: "lowercase_stable ex_unicode"
  unfolding lowercase_stable_def ex_unicode_def
  by (auto simp: ex_lowercase_mapping_def scalar_value_def)

theorem normalizeText_idempotent_well_formed_witness:
  "lowercase_stable ex_unicode \<and>
   isWellFormed [0x0048, 0x0069, 0xFF0C, 0x0020, 0xD801, 0xDC00] \<and>
   normalizeText ex_unicode [0x0048, 0x0069, 0xFF0C, 0x0020, 0xD801, 0xDC00] =
     [0x0068, 0x0069, 0xD801, 0xDC28] \<and>
   normalizeText ex_unicode [0x0068, 0x0069, 0xD801, 0xDC28] = [0x0068, 0x0069, 0xD801, 0xDC28]"
proof -
  have wf: "isWellFormed [0x0048, 0x0069, 0xFF0C, 0x0020, 0xD801, 0xDC00]"
    by code_simp
  have val: "normalizeText ex_unicode [0x0048, 0x0069, 0xFF0C, 0x0020, 0xD801, 0xDC00] =
             [0x0068, 0x0069, 0xD801, 0xDC28]"
    by code_simp
  from normalizeText_idempotent_well_formed [OF ex_unicode_stable wf]
  show ?thesis
    using ex_unicode_stable wf by (simp add: val)
qed

text \<open>
  C9 as stated fails on a string with two lone surrogates around a space: the first
  pass deletes the space, which joins the surrogates to the capital letter \<open>U+10400\<close>,
  and the second pass lower-cases it.
\<close>

theorem normalizeText_idempotent_counterexample:
  "normalizeText ex_unicode [0xD801, 0x0020, 0xDC00] = [0xD801, 0xDC00] \<and>
   normalizeText ex_unicode [0xD801, 0xDC00] = [0xD801, 0xDC28]"
  by code_simp

section \<open>Similarity of fingerprints\<close>

lemma set_new_Set [simp]: "set (new_Set xs) = set xs"
  by (simp add: new_Set_def)

lemma distinct_new_Set [simp]: "distinct (new_Set xs)"
  by (simp add: new_Set_def)

lemma length_new_Set: "length (new_Set xs) = card (set xs)"
  using distinct_card [of "new_Set xs"] by simp

text \<open>
  The keyword similarity is the quotient of the sizes of the intersection and of the
  union of the two keyword sets, as a double.
\<close>

lemma calculateKeywordSimilarity_cards:
  "calculateKeywordSimilarity keywords1 keywords2 =
     num_div (number_of_nat (card (set keywords1 \<inter> set keywords2)))
             (number_of_nat (card (set keywords1 \<union> set keywords2)))"
proof -
  have "set (filter (\<lambda>x. x \<in> set keywords2) (new_Set keywords1)) = set keywords1 \<inter> set keywords2"
    by auto
  then show ?thesis
    by (simp add: calculateKeywordSimilarity_def Let_def length_new_Set)
qed

text \<open>
  Equal hashes give 1; otherwise the keyword similarity is weighted with the double
  \<open>0.6\<close> and the structure similarity with the double \<open>0.4\<close>.
\<close>

lemma calculateFingerprintSimilarity_cards:
  "calculateFingerprintSimilarity fp1 fp2 =
     (if fp_hash fp1 = fp_hash fp2 then Fin 1
      else num_add
             (num_mul (num_div (number_of_nat (card (set (fp_keywords fp1) \<inter> set (fp_keywords fp2))))
                               (number_of_nat (card (set (fp_keywords fp1) \<union> set (fp_keywords fp2)))))
                      (to_double (6 / 10)))
             (num_mul (calculateSignatureSimilarity (fp_structure fp1) (fp_structure fp2))
                      (to_double (4 / 10))))"
  by (simp add: calculateFingerprintSimilarity_def Let_def calculateKeywordSimilarity_cards)

text \<open>
  When neither fingerprint has a keyword the union is empty and the quotient is
  \<open>0 / 0\<close>: the similarity of two fingerprints with different hashes is \<open>NaN\<close> then,
  whatever their structure signatures are.
\<close>

lemma calculateFingerprintSimilarity_no_keywords:
  assumes "fp_hash fp1 \<noteq> fp_hash fp2" and "fp_keywords fp1 = []" and "fp_keywords fp2 = []"
  shows "calculateFingerprintSimilarity fp1 fp2 = NaN"
  using assms
  by (simp add: calculateFingerprintSimilarity_def Let_def calculateKeywordSimilarity_def
        new_Set_def number_of_nat_def)

text \<open>
  C7, at an input where the code departs from it: the fingerprints of two scripts
  without keywords have different hashes and equal structure signatures, so that the
  formula asks for a number from 0.4 on; the code returns \<open>NaN\<close>.
\<close>

theorem calculateFingerprintSimilarity_without_keywords:
  "fp_keywords (generateFingerprint ex_unicode (ex_env 0) ex_letters_script) = [] \<and>
   fp_keywords (generateFingerprint ex_unicode (ex_env 1) ex_other_letters_script) = [] \<and>
   fp_hash (generateFingerprint ex_unicode (ex_env 0) ex_letters_script) = ascii ''17862'' \<and>
   fp_hash (generateFingerprint ex_unicode (ex_env 1) ex_other_letters_script) = ascii ''1d199'' \<and>
   fp_structure (generateFingerprint ex_unicode (ex_env 0) ex_letters_script) =
     fp_structure (generateFingerprint ex_unicode (ex_env 1) ex_other_letters_script) \<and>
   calculateFingerprintSimilarity
     (generateFingerprint ex_unicode (ex_env 0) ex_letters_script)
     (generateFingerprint ex_unicode (ex_env 1) ex_other_letters_script) = NaN"
  by code_simp

text \<open>
  The double arithmetic of the weighted sum: a keyword similarity of \<open>0.75\<close> and a
  structure similarity of \<open>0.125\<close> give the double just below \<open>0.5\<close>.
\<close>

lemma weighted_sum_below_half:
  "num_add (num_mul (Fin (3 / 4)) (to_double (6 / 10))) (num_mul (Fin (1 / 8)) (to_double (4 / 10))) =
   Fin (9007199254740991 / 18014398509481984)"
  by code_simp

section \<open>The uniqueness check\<close>

text \<open>The scan finds nothing exactly when no entry of the history reaches the threshold.\<close>

lemma scan_history_None_iff:
  "scan_history threshold fingerprint history = None \<longleftrightarrow>
   (\<forall>(key, existingFp) \<in> set history.
      \<not> num_ge (calculateFingerprintSimilarity fingerprint existingFp) threshold)"
  by (induction history) (auto simp: Let_def split: if_splits)

text \<open>It stops at the first entry that reaches the threshold.\<close>

lemma scan_history_first:
  assumes "\<forall>(key, existingFp) \<in> set before.
             \<not> num_ge (calculateFingerprintSimilarity fingerprint existingFp) threshold"
    and "num_ge (calculateFingerprintSimilarity fingerprint hit) threshold"
  shows "scan_history threshold fingerprint (before @ (key, hit) # rest) =
         Some \<lparr>res_isUnique = False,
               res_similarity = calculateFingerprintSimilarity fingerprint hit,
               res_matchedScript =
                 Some \<lparr>ms_id = fp_scriptId hit,
                       ms_title = [0x5386, 0x53F2, 0x811A, 0x672C],
                       ms_createdAt = fp_createdAt hit\<rparr>,
               res_differences = findDifferences fingerprint hit,
               res_suggestions =
                 generateUniquenessSuggestions (calculateFingerprintSimilarity fingerprint hit)\<rparr>"
  using assms by (induction before) (auto simp: Let_def)

lemma scan_history_not_unique:
  "scan_history threshold fingerprint history = Some found \<Longrightarrow> \<not> res_isUnique found"
  by (induction history) (auto simp: Let_def split: if_splits)

text \<open>
  C1 (as amended): with \<open>checkHistory\<close> enabled, \<open>checkUniqueness\<close> returns
  \<open>isUnique = true\<close> exactly when no stored fingerprint's similarity to the script's
  fingerprint reaches the threshold; otherwise it returns \<open>isUnique = false\<close> with the
  first stored fingerprint, in the order of the history, whose similarity reaches the
  threshold, and with that similarity.
\<close>

theorem checkUniqueness_first_match:
  assumes "ucfg_checkHistory (us_config svc)"
  shows
    "(res_isUnique (checkUniqueness u svc env script) \<longleftrightarrow>
        (\<forall>(key, existingFp) \<in> set (us_fingerprints svc).
           \<not> num_ge (calculateFingerprintSimilarity (generateFingerprint u env script) existingFp)
                     (ucfg_similarityThreshold (us_config svc)))) \<and>
     (\<forall>before key hit rest.
        us_fingerprints svc = before @ (key, hit) # rest \<and>
        (\<forall>(key', existingFp) \<in> set before.
           \<not> num_ge (calculateFingerprintSimilarity (generateFingerprint u env script) existingFp)
                     (ucfg_similarityThreshold (us_config svc))) \<and>
        num_ge (calculateFingerprintSimilarity (generateFingerprint u env script) hit)
               (ucfg_similarityThreshold (us_config svc)) \<longrightarrow>
        checkUniqueness u svc env script =
          \<lparr>res_isUnique = False,
           res_similarity = calculateFingerprintSimilarity (generateFingerprint u env script) hit,
           res_matchedScript =
             Some \<lparr>ms_id = fp_scriptId hit,
                   ms_title = [0x5386, 0x53F2, 0x811A, 0x672C],
                   ms_createdAt = fp_createdAt hit\<rparr>,
           res_differences = findDifferences (generateFingerprint u env script) hit,
           res_suggestions =
             generateUniquenessSuggestions
               (calculateFingerprintSimilarity (generateFingerprint u env script) hit)\<rparr>)"
proof (intro conjI allI impI)
  let ?fp = "generateFingerprint u env script"
  let ?th = "ucfg_similarityThreshold (us_config svc)"
  let ?scan = "scan_history ?th ?fp (us_fingerprints svc)"
  show "res_isUnique (checkUniqueness u svc env script) \<longleftrightarrow>
        (\<forall>(key, existingFp) \<in> set (us_fingerprints svc).
           \<not> num_ge (calculateFingerprintSimilarity ?fp existingFp) ?th)"
  proof (cases ?scan)
    case None
    then show ?thesis
      using assms scan_history_None_iff [of ?th ?fp "us_fingerprints svc"]
      by (simp add: checkUniqueness_def)
  next
    case (Some found)
    then have "\<not> res_isUnique (checkUniqueness u svc env script)"
      using assms scan_history_not_unique [OF Some] by (simp add: checkUniqueness_def)
    moreover have "?scan \<noteq> None"
      using Some by simp
    ultimately show ?thesis
      using scan_history_None_iff [of ?th ?fp "us_fingerprints svc"] by simp
  qed
next
  fix before key hit rest
  assume h: "us_fingerprints svc = before @ (key, hit) # rest \<and>
        (\<forall>(key', existingFp) \<in> set before.
           \<not> num_ge (calculateFingerprintSimilarity (generateFingerprint u env script) existingFp)
                     (ucfg_similarityThreshold (us_config svc))) \<and>
        num_ge (calculateFingerprintSimilarity (generateFingerprint u env script) hit)
               (ucfg_similarityThreshold (us_config svc))"
  then show "checkUniqueness u svc env script =
          \<lparr>res_isUnique = False,
           res_similarity = calculateFingerprintSimilarity (generateFingerprint u env script) hit,
           res_matchedScript =
             Some \<lparr>ms_id = fp_scriptId hit,
                   ms_title = [0x5386, 0x53F2, 0x811A, 0x672C],
                   ms_createdAt = fp_createdAt hit\<rparr>,
           res_differences = findDifferences (generateFingerprint u env script) hit,
           res_suggestions =
             generateUniquenessSuggestions
               (calculateFingerprintSimilarity (generateFingerprint u env script) hit)\<rparr>"
    using assms scan_history_first [of before "generateFingerprint u env script"
        "ucfg_similarityThreshold (us_config svc)" hit key rest]
    by (simp add: checkUniqueness_def)
qed

text \<open>The fingerprint of the example script, and its similarity to the two stored ones.\<close>

lemma ex_keywords: "extractKeywords ex_unicode (ascii ''hello world'') = [ascii ''hello'', ascii ''world'']"
  by code_simp

lemma ex_signature: "generateStructureSignature ex_script = ascii ''narration:11:1''"
  by code_simp

lemma ex_fingerprint:
  "generateFingerprint ex_unicode env ex_script =
     \<lparr>fp_id = fst env, fp_scriptId = ascii ''script_1'',
      fp_hash = generateHash ex_unicode (ascii ''hello world''),
      fp_keywords = [ascii ''hello'', ascii ''world''],
      fp_structure = ascii ''narration:11:1'',
      fp_createdAt = snd env\<rparr>"
proof -
  have "script_content ex_script = ascii ''hello world''" "script_id ex_script = ascii ''script_1''"
    by (simp_all add: ex_script_def)
  then show ?thesis
    by (simp add: generateFingerprint_def Let_def ex_keywords ex_signature)
qed

lemma ex_hash_nonzero: "generateHash ex_unicode (ascii ''hello world'') \<noteq> ascii ''0''"
  by code_simp

lemma ex_weighted_sum:
  "num_add (num_mul (Fin 0) (to_double (3 / 5))) (num_mul (Fin 1) (to_double (2 / 5))) =
   to_double (2 / 5)"
  by code_simp

lemma ex_reaches_threshold: "num_ge (to_double (2 / 5)) (to_double (3 / 10))"
  by code_simp

lemma ex_below_one: "num_lt (to_double (2 / 5)) (Fin 1)"
  by code_simp

lemma ex_similarity_other:
  "calculateFingerprintSimilarity (generateFingerprint ex_unicode env ex_script) ex_other_fp =
   to_double (2 / 5)"
proof -
  have k: "calculateKeywordSimilarity [ascii ''hello'', ascii ''world''] [ascii ''foo''] = Fin 0"
    by code_simp
  have s: "calculateSignatureSimilarity (ascii ''narration:11:1'') (ascii ''narration:11:1'') = Fin 1"
    by code_simp
  show ?thesis
    unfolding calculateFingerprintSimilarity_def Let_def ex_fingerprint
    using ex_hash_nonzero by (simp add: ex_other_fp_def k s ex_weighted_sum)
qed

lemma ex_similarity_own:
  "calculateFingerprintSimilarity (generateFingerprint ex_unicode env ex_script) ex_own_fp = Fin 1"
  by (simp add: calculateFingerprintSimilarity_def ex_own_fp_def ex_fingerprint)

lemma ex_check_result:
  "checkUniqueness ex_unicode ex_service env ex_script =
     \<lparr>res_isUnique = False,
      res_similarity = to_double (2 / 5),
      res_matchedScript =
        Some \<lparr>ms_id = fp_scriptId ex_other_fp,
              ms_title = [0x5386, 0x53F2, 0x811A, 0x672C],
              ms_createdAt = fp_createdAt ex_other_fp\<rparr>,
      res_differences = findDifferences (generateFingerprint ex_unicode env ex_script) ex_other_fp,
      res_suggestions = generateUniquenessSuggestions (to_double (2 / 5))\<rparr>"
proof -
  have "scan_history (to_double (3 / 10)) (generateFingerprint ex_unicode env ex_script)
          (us_fingerprints ex_service) =
        Some \<lparr>res_isUnique = False,
              res_similarity = to_double (2 / 5),
              res_matchedScript =
                Some \<lparr>ms_id = fp_scriptId ex_other_fp,
                      ms_title = [0x5386, 0x53F2, 0x811A, 0x672C],
                      ms_createdAt = fp_createdAt ex_other_fp\<rparr>,
              res_differences = findDifferences (generateFingerprint ex_unicode env ex_script) ex_other_fp,
              res_suggestions = generateUniquenessSuggestions (to_double (2 / 5))\<rparr>"
    by (simp add: ex_service_def Let_def ex_similarity_other ex_reaches_threshold)
  then show ?thesis
    by (simp add: checkUniqueness_def ex_service_def default_UniquenessConfig_def)
qed

theorem checkUniqueness_first_match_witness:
  "ucfg_checkHistory (us_config ex_service) \<and>
   \<not> res_isUnique (checkUniqueness ex_unicode ex_service (ex_env 0) ex_script) \<and>
   res_matchedScript (checkUniqueness ex_unicode ex_service (ex_env 0) ex_script) =
     Some \<lparr>ms_id = ascii ''script_0'',
           ms_title = [0x5386, 0x53F2, 0x811A, 0x672C],
           ms_createdAt = ascii ''2023-12-31T00:00:00.000Z''\<rparr>"
proof -
  have on: "ucfg_checkHistory (us_config ex_service)"
    by (simp add: ex_service_def default_UniquenessConfig_def)
  have hist: "us_fingerprints ex_service =
              [] @ (ascii ''fp_a'', ex_other_fp) # [(ascii ''fp_b'', ex_own_fp)]"
    by (simp add: ex_service_def)
  have reach: "num_ge (calculateFingerprintSimilarity (generateFingerprint ex_unicode (ex_env 0) ex_script)
                         ex_other_fp)
                      (ucfg_similarityThreshold (us_config ex_service))"
    by (simp add: ex_similarity_other ex_service_def default_UniquenessConfig_def
          ex_reaches_threshold)
  from checkUniqueness_first_match [OF on, of ex_unicode "ex_env 0" ex_script] hist reach
  have "checkUniqueness ex_unicode ex_service (ex_env 0) ex_script =
          \<lparr>res_isUnique = False,
           res_similarity =
             calculateFingerprintSimilarity (generateFingerprint ex_unicode (ex_env 0) ex_script) ex_other_fp,
           res_matchedScript =
             Some \<lparr>ms_id = fp_scriptId ex_other_fp,
                   ms_title = [0x5386, 0x53F2, 0x811A, 0x672C],
                   ms_createdAt = fp_createdAt ex_other_fp\<rparr>,
           res_differences = findDifferences (generateFingerprint ex_unicode (ex_env 0) ex_script) ex_other_fp,
           res_suggestions =
             generateUniquenessSuggestions
               (calculateFingerprintSimilarity (generateFingerprint ex_unicode (ex_env 0) ex_script)
                  ex_other_fp)\<rparr>"
    by (metis (no_types, lifting) empty_iff list.set(1))
  then show ?thesis
    using on by (simp add: ex_other_fp_def)
qed

text \<open>
  C1 as stated fails on the example history: the check returns the first entry,
  of similarity \<open>0.4\<close>, although the second entry is stored with similarity 1.
\<close>

theorem checkUniqueness_best_match_counterexample:
  "res_similarity (checkUniqueness ex_unicode ex_service (ex_env 0) ex_script) = to_double (2 / 5) \<and>
   (ascii ''fp_b'', ex_own_fp) \<in> set (us_fingerprints ex_service) \<and>
   calculateFingerprintSimilarity (generateFingerprint ex_unicode (ex_env 0) ex_script) ex_own_fp = Fin 1 \<and>
   num_lt (to_double (2 / 5)) (Fin 1)"
  by (simp add: ex_check_result ex_similarity_own ex_below_one) (simp add: ex_service_def)

section \<open>The retry loop\<close>

text \<open>
  C2 (as amended): with \<open>maxRewriteAttempts = 0\<close> the loop of \<open>ensureUniqueness\<close> is not
  entered: no uniqueness check is made, the collaborator is never invoked, and the input
  script is returned with \<open>attempts = 0\<close> and \<open>isUnique = false\<close>; the service is
  unchanged.
\<close>

theorem ensureUniqueness_zero_attempts:
  assumes "ucfg_maxRewriteAttempts (us_config svc) = 0"
  shows "ensureUniqueness u env svc script rewriteFn =
         (Inr \<lparr>ens_script = script, ens_attempts = 0, ens_isUnique = False\<rparr>, svc, [])"
  using assms by (simp add: ensureUniqueness_def ensure_loop.simps)

theorem ensureUniqueness_zero_attempts_witness:
  "ucfg_maxRewriteAttempts (us_config ex_zero_service) = 0 \<and>
   ensureUniqueness ex_unicode ex_env ex_zero_service ex_script ex_failing_rewrite =
     (Inr \<lparr>ens_script = ex_script, ens_attempts = 0, ens_isUnique = False\<rparr>,
      ex_zero_service, [])"
proof -
  have zero: "ucfg_maxRewriteAttempts (us_config ex_zero_service) = 0"
    by (simp add: ex_zero_service_def)
  show ?thesis
    using zero ensureUniqueness_zero_attempts [OF zero, of ex_unicode ex_env ex_script ex_failing_rewrite]
    by simp
qed

text \<open>
  C2 as stated asks for exactly one check: on a service with an empty history and
  \<open>maxRewriteAttempts = 0\<close> none is made, and the script is reported as not unique.
\<close>

theorem ensureUniqueness_one_check_counterexample:
  "length (check_calls (snd (snd (ensureUniqueness ex_unicode ex_env ex_zero_service ex_script
                               ex_failing_rewrite)))) = 0 \<and>
   us_fingerprints ex_zero_service = [] \<and>
   fst (ensureUniqueness ex_unicode ex_env ex_zero_service ex_script ex_failing_rewrite) =
     Inr \<lparr>ens_script = ex_script, ens_attempts = 0, ens_isUnique = False\<rparr>"
  by (simp add: ensureUniqueness_def ensure_loop.simps ex_zero_service_def check_calls_def)

lemma check_calls_append [simp]: "check_calls (xs @ ys) = check_calls xs @ check_calls ys"
  by (simp add: check_calls_def)

lemma check_calls_simps [simp]:
  "check_calls [] = []"
  "check_calls (CheckCall s # calls) = s # check_calls calls"
  "check_calls (RegisterCall s # calls) = check_calls calls"
  "check_calls (RewriteCall s # calls) = check_calls calls"
  by (simp_all add: check_calls_def)

text \<open>Every iteration checks once: at most \<open>maxRewriteAttempts - attempts\<close> further checks.\<close>

lemma ensure_loop_checks:
  "int (length (check_calls (snd (snd (ensure_loop u env rewriteFn svc calls currentScript attempts)))))
   \<le> int (length (check_calls calls)) +
      max 0 (ucfg_maxRewriteAttempts (us_config svc) - int attempts)"
proof (induction u env rewriteFn svc calls currentScript attempts rule: ensure_loop.induct)
  case (1 u env rewriteFn svc calls currentScript attempts)
  show ?case
  proof (cases "int attempts < ucfg_maxRewriteAttempts (us_config svc)")
    case False
    then show ?thesis
      by (subst ensure_loop.simps) simp
  next
    case enter: True
    show ?thesis
    proof (cases "res_isUnique (checkUniqueness u svc (env attempts) currentScript)")
      case True
      then show ?thesis
        using enter by (subst ensure_loop.simps) (simp add: Let_def)
    next
      case dup: False
      show ?thesis
      proof (cases "ucfg_autoRewrite (us_config svc)")
        case False
        then show ?thesis
          using enter dup by (subst ensure_loop.simps) (simp add: Let_def)
      next
        case auto_on: True
        show ?thesis
        proof (cases "rewriteFn attempts currentScript")
          case (Inl e)
          then show ?thesis
            using enter dup auto_on by (subst ensure_loop.simps) (simp add: Let_def)
        next
          case (Inr rewritten)
          have run: "ensure_loop u env rewriteFn svc calls currentScript attempts =
                     ensure_loop u env rewriteFn svc
                       ((calls @ [CheckCall currentScript]) @ [RewriteCall currentScript])
                       rewritten (attempts + 1)"
            using enter dup auto_on Inr by (subst ensure_loop.simps) (simp add: Let_def)
          show ?thesis
            unfolding run
            using "1.IH" [OF enter refl refl dup _ Inr] auto_on enter by simp
        qed
      qed
    qed
  qed
qed

text \<open>A run of \<open>ensureUniqueness\<close> makes at most \<open>maxRewriteAttempts\<close> checks.\<close>

lemma ensureUniqueness_checks:
  "int (length (check_calls (snd (snd (ensureUniqueness u env svc script rewriteFn)))))
   \<le> max 0 (ucfg_maxRewriteAttempts (us_config svc))"
  unfolding ensureUniqueness_def using ensure_loop_checks [of u env rewriteFn svc "[]" script 0]
  by simp

text \<open>
  The outcome of the loop is an error exactly when an invocation of the collaborator
  failed with it. The counter \<open>attempts\<close> is the number of invocations made so far.
\<close>

lemma rewrite_calls_append [simp]: "rewrite_calls (xs @ ys) = rewrite_calls xs @ rewrite_calls ys"
  by (simp add: rewrite_calls_def)

lemma rewrite_calls_simps [simp]:
  "rewrite_calls [] = []"
  "rewrite_calls (CheckCall s # calls) = rewrite_calls calls"
  "rewrite_calls (RegisterCall s # calls) = rewrite_calls calls"
  "rewrite_calls (RewriteCall s # calls) = s # rewrite_calls calls"
  by (simp_all add: rewrite_calls_def)

lemma ensure_loop_failure:
  assumes "length (rewrite_calls calls) = attempts"
    and "\<forall>n<attempts. \<forall>e. rewriteFn n (rewrite_calls calls ! n) \<noteq> Inl e"
  shows "fst (ensure_loop u env rewriteFn svc calls currentScript attempts) = Inl e \<longleftrightarrow>
         (\<exists>n<length (rewrite_calls (snd (snd (ensure_loop u env rewriteFn svc calls currentScript attempts)))).
            rewriteFn n
              (rewrite_calls (snd (snd (ensure_loop u env rewriteFn svc calls currentScript attempts))) ! n)
            = Inl e)"
  using assms
proof (induction u env rewriteFn svc calls currentScript attempts rule: ensure_loop.induct)
  case (1 u env rewriteFn svc calls currentScript attempts)
  let ?calls2 = "(calls @ [CheckCall currentScript]) @ [RewriteCall currentScript]"
  have len2: "length (rewrite_calls ?calls2) = attempts + 1"
    using "1.prems"(1) by simp
  have nth_old: "rewrite_calls ?calls2 ! n = rewrite_calls calls ! n" if "n < attempts" for n
    using that "1.prems"(1) by (simp add: nth_append)
  have nth_new: "rewrite_calls ?calls2 ! attempts = currentScript"
    using "1.prems"(1) by (simp add: nth_append)
  show ?case
  proof (cases "int attempts < ucfg_maxRewriteAttempts (us_config svc)")
    case False
    then show ?thesis
      using "1.prems" by (subst (1 2 3) ensure_loop.simps) auto
  next
    case enter: True
    show ?thesis
    proof (cases "res_isUnique (checkUniqueness u svc (env attempts) currentScript)")
      case True
      then show ?thesis
        using enter "1.prems" by (subst (1 2 3) ensure_loop.simps) (auto simp: Let_def)
    next
      case dup: False
      show ?thesis
      proof (cases "ucfg_autoRewrite (us_config svc)")
        case False
        then show ?thesis
          using enter dup "1.prems" by (subst (1 2 3) ensure_loop.simps) (auto simp: Let_def)
      next
        case auto_on: True
        show ?thesis
        proof (cases "rewriteFn attempts currentScript")
          case (Inl e0)
          have run: "ensure_loop u env rewriteFn svc calls currentScript attempts =
                     (Inl e0, svc, ?calls2)"
            using enter dup auto_on Inl by (subst ensure_loop.simps) (simp add: Let_def)
          have "(\<exists>n<attempts + 1. rewriteFn n (rewrite_calls ?calls2 ! n) = Inl e) \<longleftrightarrow> e0 = e"
          proof
            assume "\<exists>n<attempts + 1. rewriteFn n (rewrite_calls ?calls2 ! n) = Inl e"
            then obtain n where n: "n < attempts + 1" "rewriteFn n (rewrite_calls ?calls2 ! n) = Inl e"
              by blast
            have "n = attempts"
            proof (rule ccontr)
              assume "n \<noteq> attempts"
              then have "n < attempts" using n(1) by simp
              then show False
                using n(2) nth_old "1.prems"(2) by auto
            qed
            then show "e0 = e"
              using n(2) nth_new Inl by simp
          next
            assume "e0 = e"
            then have "rewriteFn attempts (rewrite_calls ?calls2 ! attempts) = Inl e"
              using nth_new Inl by simp
            then show "\<exists>n<attempts + 1. rewriteFn n (rewrite_calls ?calls2 ! n) = Inl e"
              by (intro exI [of _ attempts]) simp
          qed
          then show ?thesis
            unfolding run using len2 by auto
        next
          case (Inr rewritten)
          have run: "ensure_loop u env rewriteFn svc calls currentScript attempts =
                     ensure_loop u env rewriteFn svc ?calls2 rewritten (attempts + 1)"
            using enter dup auto_on Inr by (subst ensure_loop.simps) (simp add: Let_def)
          have ok: "\<forall>n<attempts + 1. \<forall>e. rewriteFn n (rewrite_calls ?calls2 ! n) \<noteq> Inl e"
          proof (intro allI impI)
            fix n e assume "n < attempts + 1"
            then consider "n < attempts" | "n = attempts" by linarith
            then show "rewriteFn n (rewrite_calls ?calls2 ! n) \<noteq> Inl e"
            proof cases
              case 1
              then show ?thesis using nth_old "1.prems"(2) by simp
            next
              case 2
              then show ?thesis using nth_new Inr by simp
            qed
          qed
          show ?thesis
            unfolding run
            using "1.IH" [OF enter refl refl dup _ Inr len2 ok] auto_on by simp
        qed
      qed
    qed
  qed
qed

text \<open>
  A failing run consists of checks and invocations in turn and ends with the failing
  invocation: \<open>xs\<close> are the scripts checked and handed to the collaborator from the
  current one on, each but the last rewritten into the next.
\<close>

lemma ensure_loop_failed:
  assumes "fst (ensure_loop u env rewriteFn svc calls currentScript attempts) = Inl e"
  shows "\<exists>xs. xs \<noteq> [] \<and> hd xs = currentScript \<and>
           snd (ensure_loop u env rewriteFn svc calls currentScript attempts) =
             (svc, calls @ concat (map (\<lambda>s. [CheckCall s, RewriteCall s]) xs)) \<and>
           rewriteFn (attempts + length xs - 1) (last xs) = Inl e \<and>
           (\<forall>i. Suc i < length xs \<longrightarrow> rewriteFn (attempts + i) (xs ! i) = Inr (xs ! Suc i))"
  using assms
proof (induction u env rewriteFn svc calls currentScript attempts rule: ensure_loop.induct)
  case (1 u env rewriteFn svc calls currentScript attempts)
  let ?calls2 = "(calls @ [CheckCall currentScript]) @ [RewriteCall currentScript]"
  show ?case
  proof (cases "int attempts < ucfg_maxRewriteAttempts (us_config svc)")
    case False
    then have "fst (ensure_loop u env rewriteFn svc calls currentScript attempts) \<noteq> Inl e"
      by (subst ensure_loop.simps) simp
    then show ?thesis
      using "1.prems" by simp
  next
    case enter: True
    show ?thesis
    proof (cases "res_isUnique (checkUniqueness u svc (env attempts) currentScript)")
      case True
      then have "fst (ensure_loop u env rewriteFn svc calls currentScript attempts) \<noteq> Inl e"
        using enter by (subst ensure_loop.simps) (simp add: Let_def)
      then show ?thesis
        using "1.prems" by simp
    next
      case dup: False
      show ?thesis
      proof (cases "ucfg_autoRewrite (us_config svc)")
        case False
        then have "fst (ensure_loop u env rewriteFn svc calls currentScript attempts) \<noteq> Inl e"
          using enter dup by (subst ensure_loop.simps) (simp add: Let_def)
        then show ?thesis
          using "1.prems" by simp
      next
        case auto_on: True
        show ?thesis
        proof (cases "rewriteFn attempts currentScript")
          case (Inl e0)
          have run: "ensure_loop u env rewriteFn svc calls currentScript attempts =
                     (Inl e0, svc, ?calls2)"
            using enter dup auto_on Inl by (subst ensure_loop.simps) (simp add: Let_def)
          have "e0 = e"
            using "1.prems" by (simp add: run)
          then show ?thesis
            using Inl by (intro exI [of _ "[currentScript]"]) (simp add: run)
        next
          case (Inr rewritten)
          have run: "ensure_loop u env rewriteFn svc calls currentScript attempts =
                     ensure_loop u env rewriteFn svc ?calls2 rewritten (attempts + 1)"
            using enter dup auto_on Inr by (subst ensure_loop.simps) (simp add: Let_def)
          have "fst (ensure_loop u env rewriteFn svc ?calls2 rewritten (attempts + 1)) = Inl e"
            using "1.prems" by (simp add: run)
          from "1.IH" [OF enter refl refl dup _ Inr this] auto_on
          obtain xs where xs: "xs \<noteq> []" "hd xs = rewritten"
            "snd (ensure_loop u env rewriteFn svc ?calls2 rewritten (attempts + 1)) =
               (svc, ?calls2 @ concat (map (\<lambda>s. [CheckCall s, RewriteCall s]) xs))"
            "rewriteFn (attempts + 1 + length xs - 1) (last xs) = Inl e"
            "\<forall>i. Suc i < length xs \<longrightarrow> rewriteFn (attempts + 1 + i) (xs ! i) = Inr (xs ! Suc i)"
            by auto
          have step: "rewriteFn (attempts + i) ((currentScript # xs) ! i) =
                      Inr ((currentScript # xs) ! Suc i)"
            if "Suc i < length (currentScript # xs)" for i
          proof (cases i)
            case 0
            then show ?thesis
              using Inr xs(1,2) by (simp add: hd_conv_nth)
          next
            case (Suc j)
            then show ?thesis
              using that xs(5) by simp
          qed
          have "snd (ensure_loop u env rewriteFn svc calls currentScript attempts) =
                (svc, ?calls2 @ concat (map (\<lambda>s. [CheckCall s, RewriteCall s]) xs))"
            by (simp only: run xs(3))
          then have "snd (ensure_loop u env rewriteFn svc calls currentScript attempts) =
                (svc, calls @ concat (map (\<lambda>s. [CheckCall s, RewriteCall s]) (currentScript # xs)))"
            by simp
          moreover have "rewriteFn (attempts + length (currentScript # xs) - 1)
                           (last (currentScript # xs)) = Inl e"
            using xs(1,4) by simp
          ultimately show ?thesis
            using step by (intro exI [of _ "currentScript # xs"]) simp
        qed
      qed
    qed
  qed
qed

lemma rewrite_calls_turns [simp]:
  "rewrite_calls (concat (map (\<lambda>s. [CheckCall s, RewriteCall s]) xs)) = xs"
  by (induction xs) simp_all

lemma check_calls_turns [simp]:
  "check_calls (concat (map (\<lambda>s. [CheckCall s, RewriteCall s]) xs)) = xs"
  by (induction xs) simp_all

text \<open>
  C3 (as amended): a failure of the rewrite collaborator is not caught. The promise of
  \<open>ensureUniqueness\<close> is rejected with an error exactly when an invocation of the
  collaborator, on the script it was handed, failed with that error; no script, attempt
  count or \<open>isUnique\<close> flag is returned then. The retry loop ends at that invocation:
  the run consists of one check and one invocation for the input script and for each
  rewritten script in turn, every invocation but the last, failing one has succeeded,
  nothing is registered, and the service is left as it was.
\<close>

theorem ensureUniqueness_rewrite_failure_propagates:
  "(fst (ensureUniqueness u env svc script rewriteFn) = Inl e \<longleftrightarrow>
      (\<exists>n<length (rewrite_calls (snd (snd (ensureUniqueness u env svc script rewriteFn)))).
         rewriteFn n (rewrite_calls (snd (snd (ensureUniqueness u env svc script rewriteFn))) ! n)
         = Inl e)) \<and>
   (fst (ensureUniqueness u env svc script rewriteFn) = Inl e \<longrightarrow>
      (\<exists>xs. xs \<noteq> [] \<and> hd xs = script \<and>
         snd (ensureUniqueness u env svc script rewriteFn) =
           (svc, concat (map (\<lambda>s. [CheckCall s, RewriteCall s]) xs)) \<and>
         rewriteFn (length xs - 1) (last xs) = Inl e \<and>
         (\<forall>i. Suc i < length xs \<longrightarrow> rewriteFn i (xs ! i) = Inr (xs ! Suc i))))"
proof (intro conjI impI)
  show "fst (ensureUniqueness u env svc script rewriteFn) = Inl e \<longleftrightarrow>
      (\<exists>n<length (rewrite_calls (snd (snd (ensureUniqueness u env svc script rewriteFn)))).
         rewriteFn n (rewrite_calls (snd (snd (ensureUniqueness u env svc script rewriteFn))) ! n)
         = Inl e)"
    unfolding ensureUniqueness_def by (rule ensure_loop_failure) simp_all
next
  assume "fst (ensureUniqueness u env svc script rewriteFn) = Inl e"
  then have "fst (ensure_loop u env rewriteFn svc [] script 0) = Inl e"
    by (simp add: ensureUniqueness_def)
  from ensure_loop_failed [OF this]
  show "\<exists>xs. xs \<noteq> [] \<and> hd xs = script \<and>
         snd (ensureUniqueness u env svc script rewriteFn) =
           (svc, concat (map (\<lambda>s. [CheckCall s, RewriteCall s]) xs)) \<and>
         rewriteFn (length xs - 1) (last xs) = Inl e \<and>
         (\<forall>i. Suc i < length xs \<longrightarrow> rewriteFn i (xs ! i) = Inr (xs ! Suc i))"
    by (simp add: ensureUniqueness_def)
qed

lemma ex_failing_run:
  "ensureUniqueness ex_unicode ex_env ex_service ex_script ex_failing_rewrite =
     (Inl ''generation failed'', ex_service, [CheckCall ex_script, RewriteCall ex_script])"
proof -
  have "ucfg_maxRewriteAttempts (us_config ex_service) = 3"
       "ucfg_autoRewrite (us_config ex_service)"
    by (simp_all add: ex_service_def default_UniquenessConfig_def)
  then show ?thesis
    unfolding ensureUniqueness_def
    by (subst ensure_loop.simps) (simp add: Let_def ex_check_result ex_failing_rewrite_def)
qed

theorem ensureUniqueness_rewrite_failure_propagates_witness:
  "fst (ensureUniqueness ex_unicode ex_env ex_service ex_script ex_failing_rewrite) =
     Inl ''generation failed'' \<and>
   (\<exists>xs. xs \<noteq> [] \<and> hd xs = ex_script \<and>
      snd (ensureUniqueness ex_unicode ex_env ex_service ex_script ex_failing_rewrite) =
        (ex_service, concat (map (\<lambda>s. [CheckCall s, RewriteCall s]) xs)) \<and>
      ex_failing_rewrite (length xs - 1) (last xs) = Inl ''generation failed'')"
proof -
  have failed: "fst (ensureUniqueness ex_unicode ex_env ex_service ex_script ex_failing_rewrite) =
                Inl ''generation failed''"
    by (simp add: ex_failing_run)
  show ?thesis
    using failed
      ensureUniqueness_rewrite_failure_propagates
        [of ex_unicode ex_env ex_service ex_script ex_failing_rewrite "''generation failed''"]
    by blast
qed

text \<open>
  C3 as stated says that a result with \<open>isUnique = false\<close> is returned: on the
  example history, where the first check finds a match, a failing collaborator makes the
  whole call fail after one check and one invocation.
\<close>

theorem ensureUniqueness_failure_caught_counterexample:
  "ensureUniqueness ex_unicode ex_env ex_service ex_script ex_failing_rewrite =
     (Inl ''generation failed'', ex_service, [CheckCall ex_script, RewriteCall ex_script])"
  by (rule ex_failing_run)

section \<open>The originality score\<close>

lemma set_new_Set_targets:
  "length (new_Set (map (\<lambda>d. target_id d) duplicates)) = card ((\<lambda>d. target_id d) ` set duplicates)"
  by (simp add: length_new_Set)

lemma floor_half_near: "\<bar>of_int \<lfloor>x + 1 / 2\<rfloor> - x\<bar> \<le> 1 / 2" for x :: rat
  by linarith

text \<open>
  The value before \<open>Math.round\<close>, for \<open>d\<close> flagged segments out of \<open>t > 0\<close>: the three
  roundings keep it between 0 and 100 and within \<open>2 ^ -44\<close> of the exact value.
\<close>

lemma raw_score:
  assumes t: "0 < t"
  shows "\<exists>s. math_max (Fin 0)
               (num_sub (Fin 100)
                  (num_mul (num_div (number_of_nat d) (number_of_nat t)) (Fin 100))) = Fin s \<and>
             0 \<le> s \<and> s \<le> 100 \<and> \<bar>s - exact_score d t\<bar> \<le> 1 / 2 ^ 44"
proof -
  define x1 :: rat where "x1 = of_nat d / of_nat t"
  have x1: "0 \<le> x1"
    by (simp add: x1_def)
  have quot: "num_div (number_of_nat d) (number_of_nat t) = to_double x1"
    using t by (simp add: number_of_nat_def x1_def)
  show ?thesis
  proof (cases "d \<le> t")
    case True
    then have "(of_nat d :: rat) \<le> of_nat t"
      by (simp only: of_nat_le_iff)
    then have x1': "x1 \<le> 1"
      using t by (simp add: x1_def divide_le_eq_1)
    from to_double_near [OF x1, of 0] x1'
    obtain a where a: "to_double x1 = Fin a" "\<bar>a - x1\<bar> \<le> 1 / 2 ^ 53"
      by (auto simp: pow2_def)
    from to_double_le_int [of x1 1] x1' a have a1: "a \<le> 1"
      by auto
    from to_double_ge_int [of 0 x1] x1 a have a0: "0 \<le> a"
      by auto
    define x2 where "x2 = a * 100"
    have x2: "0 \<le> x2" "x2 \<le> 100"
      using a0 a1 by (simp_all add: x2_def)
    from to_double_near [OF x2(1), of 7] x2(2)
    obtain w where w: "to_double x2 = Fin w" "\<bar>w - x2\<bar> \<le> 1 / 2 ^ 46"
      by (auto simp: pow2_def)
    from to_double_le_int [of x2 100] x2 w have w1: "w \<le> 100"
      by auto
    from to_double_ge_int [of 0 x2] x2 w have w0: "0 \<le> w"
      by auto
    define x3 where "x3 = 100 - w"
    have x3: "0 \<le> x3" "x3 \<le> 100"
      using w0 w1 by (simp_all add: x3_def)
    from to_double_near [OF x3(1), of 7] x3(2)
    obtain v where v: "to_double x3 = Fin v" "\<bar>v - x3\<bar> \<le> 1 / 2 ^ 46"
      by (auto simp: pow2_def)
    from to_double_le_int [of x3 100] x3 v have v1: "v \<le> 100"
      by auto
    from to_double_ge_int [of 0 x3] x3 v have v0: "0 \<le> v"
      by auto
    have "num_sub (Fin 100) (num_mul (to_double x1) (Fin 100)) = Fin v"
      by (simp add: a(1) x2_def [symmetric] w(1) num_sub_def x3_def [symmetric] v(1))
    then have raw: "math_max (Fin 0)
               (num_sub (Fin 100)
                  (num_mul (num_div (number_of_nat d) (number_of_nat t)) (Fin 100))) = Fin v"
      using v0 by (simp add: quot)
    have "100 * x1 \<le> 100"
      using x1' by simp
    then have exact: "exact_score d t = 100 - 100 * x1"
      using t by (simp add: exact_score_def x1_def)
    have "v - exact_score d t = (v - x3) - (w - x2) - 100 * (a - x1)"
      by (simp add: exact x3_def x2_def)
    moreover have "\<bar>100 * (a - x1)\<bar> \<le> 100 / 2 ^ 53"
    proof -
      have "\<bar>100 * (a - x1)\<bar> = \<bar>100\<bar> * \<bar>a - x1\<bar>"
        by (rule abs_mult)
      also have "\<dots> = 100 * \<bar>a - x1\<bar>"
        by simp
      also have "\<dots> \<le> 100 * (1 / 2 ^ 53)"
        using a(2) by (intro mult_left_mono) simp_all
      finally show ?thesis
        by simp
    qed
    ultimately have "\<bar>v - exact_score d t\<bar> \<le> 1 / 2 ^ 46 + 1 / 2 ^ 46 + 100 / 2 ^ 53"
      using v(2) w(2) by linarith
    also have "\<dots> \<le> 1 / 2 ^ 44"
      by simp
    finally show ?thesis
      using raw v0 v1 by blast
  next
    case False
    then have "t \<le> d"
      by simp
    then have "(of_nat t :: rat) \<le> of_nat d"
      by (simp only: of_nat_le_iff)
    then have x1': "of_int 1 \<le> x1"
      using t by (simp add: x1_def le_divide_eq_1)
    have "100 \<le> 100 * x1"
      using x1' by simp
    then have exact: "exact_score d t = 0"
      using t by (simp add: exact_score_def x1_def)
    have "num_sub (Fin 100) (num_mul (to_double x1) (Fin 100)) = NegInf \<or>
          (\<exists>v. num_sub (Fin 100) (num_mul (to_double x1) (Fin 100)) = Fin v \<and> v \<le> 0)"
    proof -
      from to_double_ge_int [OF x1'] consider "to_double x1 = PosInf"
        | a where "to_double x1 = Fin a" "1 \<le> a"
        by auto
      then show ?thesis
      proof cases
        case 1
        then show ?thesis
          by (simp add: num_sub_def inf_of_sign_def)
      next
        case 2
        have "of_int 100 \<le> a * 100"
          using 2(2) by simp
        from to_double_ge_int [OF this] consider "to_double (a * 100) = PosInf"
          | w where "to_double (a * 100) = Fin w" "100 \<le> w"
          by auto
        then show ?thesis
        proof cases
          case 1
          then show ?thesis
            using 2(1) by (simp add: num_sub_def)
        next
          case w: 2
          have "100 - w \<le> of_int 0"
            using w(2) by simp
          from to_double_le_int [OF this] show ?thesis
            using 2(1) w(1) by (auto simp: num_sub_def)
        qed
      qed
    qed
    then have "math_max (Fin 0)
               (num_sub (Fin 100)
                  (num_mul (num_div (number_of_nat d) (number_of_nat t)) (Fin 100))) = Fin 0"
      by (auto simp: quot)
    then show ?thesis
      by (simp add: exact)
  qed
qed

text \<open>
  C5 (as amended): for a script with at least one segment, the score of
  \<open>generateOriginalityReport\<close> is \<open>Math.round\<close> of \<open>max(0, 100 - (d / t) * 100)\<close> as
  computed in double precision, where \<open>d\<close> is the number of distinct target segment ids
  among the duplicates and \<open>t\<close> the number of segments. It is an integer between 0 and
  100, within \<open>1/2 + 2 ^ -44\<close> of the exact value of the formula.
\<close>

theorem generateOriginalityReport_score:
  assumes "script_segments script \<noteq> []"
  shows
    "rep_score (generateOriginalityReport script duplicates) =
       math_round
         (math_max (Fin 0)
            (num_sub (Fin 100)
               (num_mul
                  (num_div (number_of_nat (card ((\<lambda>d. target_id d) ` set duplicates)))
                           (number_of_nat (length (script_segments script))))
                  (Fin 100)))) \<and>
     (\<exists>z. rep_score (generateOriginalityReport script duplicates) = Fin (of_int z) \<and>
          0 \<le> z \<and> z \<le> 100 \<and>
          \<bar>of_int z - exact_score (card ((\<lambda>d. target_id d) ` set duplicates))
                                  (length (script_segments script))\<bar> \<le> 1 / 2 + 1 / 2 ^ 44)"
proof -
  let ?d = "card ((\<lambda>d. target_id d) ` set duplicates)"
  let ?t = "length (script_segments script)"
  let ?raw = "math_max (Fin 0)
                (num_sub (Fin 100)
                   (num_mul (num_div (number_of_nat ?d) (number_of_nat ?t)) (Fin 100)))"
  have t: "0 < ?t"
    using assms by simp
  have score: "rep_score (generateOriginalityReport script duplicates) = math_round ?raw"
    unfolding generateOriginalityReport_def Let_def set_new_Set_targets by simp
  from raw_score [OF t, of ?d] obtain s where s: "?raw = Fin s" "0 \<le> s" "s \<le> 100"
    "\<bar>s - exact_score ?d ?t\<bar> \<le> 1 / 2 ^ 44"
    by blast
  define z where "z = \<lfloor>s + 1 / 2\<rfloor>"
  have round: "math_round ?raw = Fin (of_int z)"
    by (simp add: s(1) z_def)
  have "0 \<le> z"
    using s(2) by (simp add: z_def)
  moreover have "z \<le> 100"
  proof -
    have "s + 1 / 2 < 101"
      using s(3) by simp
    then have "z < 101"
      by (simp add: z_def floor_less_iff)
    then show ?thesis
      by simp
  qed
  moreover have "\<bar>of_int z - exact_score ?d ?t\<bar> \<le> 1 / 2 + 1 / 2 ^ 44"
    using floor_half_near [of s] s(4) unfolding z_def [symmetric] by linarith
  ultimately show ?thesis
    using score round by auto
qed

text \<open>One flagged segment out of three, and 109 out of 200, in double precision.\<close>

lemma score_1_of_3:
  "math_round
     (math_max (Fin 0)
        (num_sub (Fin 100) (num_mul (num_div (number_of_nat 1) (number_of_nat 3)) (Fin 100)))) =
   Fin 67"
  by code_simp

lemma raw_score_1_of_3:
  "math_max (Fin 0)
     (num_sub (Fin 100) (num_mul (num_div (number_of_nat 1) (number_of_nat 3)) (Fin 100))) =
   Fin (4691249611844267 / 70368744177664)"
  by code_simp

text \<open>
  Here the exact value is \<open>45.5\<close>, the value computed in double precision lies just
  below it, and the score is 45.
\<close>

lemma score_109_of_200:
  "math_round
     (math_max (Fin 0)
        (num_sub (Fin 100) (num_mul (num_div (number_of_nat 109) (number_of_nat 200)) (Fin 100)))) =
   Fin 45 \<and> exact_score 109 200 = 91 / 2"
  by code_simp

lemma ex_three_counts:
  "card ((\<lambda>d. target_id d) ` set [ex_duplicate]) = 1" "length (script_segments ex_three_script) = 3"
  by (simp_all add: ex_three_script_def)

theorem generateOriginalityReport_score_witness:
  "script_segments ex_three_script \<noteq> [] \<and>
   rep_score (generateOriginalityReport ex_three_script [ex_duplicate]) = Fin 67"
proof -
  have segs: "script_segments ex_three_script \<noteq> []"
    by (simp add: ex_three_script_def)
  show ?thesis
    using segs generateOriginalityReport_score [OF segs, of "[ex_duplicate]"]
    unfolding ex_three_counts by (simp only: score_1_of_3 simp_thms)
qed

text \<open>
  C5 as stated gives the score without rounding: with one flagged segment out of three
  the formula is \<open>200/3\<close> (in double precision \<open>66.66666666666667\<close>), the reported
  score 67.
\<close>

theorem generateOriginalityReport_unrounded_counterexample:
  "rep_score (generateOriginalityReport ex_three_script [ex_duplicate]) = Fin 67 \<and>
   math_max (Fin 0)
     (num_sub (Fin 100) (num_mul (num_div (number_of_nat 1) (number_of_nat 3)) (Fin 100))) =
     Fin (4691249611844267 / 70368744177664) \<and>
   exact_score 1 3 = 200 / 3"
proof -
  have "rep_score (generateOriginalityReport ex_three_script [ex_duplicate]) = Fin 67"
    unfolding generateOriginalityReport_def Let_def set_new_Set_targets ex_three_counts
    by (simp only: OriginalityScore.select_convs score_1_of_3)
  moreover have "exact_score 1 3 = 200 / 3"
    by (simp add: exact_score_def)
  ultimately show ?thesis
    using raw_score_1_of_3 by simp
qed

text \<open>
  With no segment the quotient is \<open>0 / 0\<close>: the score is \<open>NaN\<close>, which neither
  \<open>Math.max\<close> nor \<open>Math.round\<close> changes.
\<close>

lemma generateOriginalityReport_no_segments:
  "rep_score (generateOriginalityReport ex_empty_script []) = NaN"
  by (simp add: generateOriginalityReport_def Let_def new_Set_def ex_empty_script_def
        number_of_nat_def num_sub_def)

section \<open>Edit similarity\<close>

lemma edit_distance_le: "edit_distance s t i j \<le> max i j"
proof (induction s t i j rule: edit_distance.induct)
  case (3 s t i j)
  have "edit_distance s t (Suc i) (Suc j) \<le> edit_distance s t i j + (if s ! i = t ! j then 0 else 1)"
    by simp
  also have "\<dots> \<le> max i j + 1"
    using "3.IH"(3) by simp
  finally show ?case by simp
qed simp_all

lemma edit_distance_zero_col [simp]: "edit_distance s t i 0 = i"
  by (cases i) simp_all

text \<open>The first loop writes \<open>0..n\<close> into row 0.\<close>

lemma lev_init_row0:
  assumes "M ! 0 = [0]" and "M \<noteq> []"
  shows "fold (\<lambda>j M. M[0 := js_set (M ! 0) j j]) [0..<Suc k] M = M[0 := [0..<Suc k]]"
proof (induction k)
  case 0
  then show ?case
    using assms by (simp add: js_set_def list_update_same_conv)
next
  case (Suc k)
  have "fold (\<lambda>j M. M[0 := js_set (M ! 0) j j]) [0..<Suc (Suc k)] M =
        (\<lambda>M. M[0 := js_set (M ! 0) (Suc k) (Suc k)]) (M[0 := [0..<Suc k]])"
    using Suc by simp
  also have "\<dots> = M[0 := [0..<Suc (Suc k)]]"
    using assms(2) by (simp add: js_set_def)
  finally show ?case .
qed

lemma upt_from_0: "[0..<Suc m] = 0 # [1..<Suc m]"
  by (simp add: upt_conv_Cons)

lemma lev_init_eq:
  "lev_init m n = [0..<Suc n] # map (\<lambda>i. [i]) [1..<Suc m]"
proof -
  have start: "map (\<lambda>i. [i]) [0..<m + 1] = [0] # map (\<lambda>i. [i]) [1..<Suc m]"
    using upt_from_0 [of m] by simp
  have "fold (\<lambda>j M. M[0 := js_set (M ! 0) j j]) [0..<Suc n] ([0] # map (\<lambda>i. [i]) [1..<Suc m]) =
        ([0] # map (\<lambda>i. [i]) [1..<Suc m])[0 := [0..<Suc n]]"
    by (rule lev_init_row0) simp_all
  then show ?thesis
    unfolding lev_init_def Let_def start by simp
qed

lemma lev_state_0: "lev_state s t m n 0 = lev_init m n"
proof -
  have r0: "map (edit_distance s t 0) [0..<Suc n] = [0..<Suc n]"
    by (rule map_idI) simp
  have rest: "map (\<lambda>r. if r \<le> 0 then map (edit_distance s t r) [0..<Suc n] else [r]) [1..<Suc m] =
              map (\<lambda>i. [i]) [1..<Suc m]"
    by (rule map_cong) auto
  have "lev_state s t m n 0 =
        map (edit_distance s t 0) [0..<Suc n] #
        map (\<lambda>r. if r \<le> 0 then map (edit_distance s t r) [0..<Suc n] else [r]) [1..<Suc m]"
    unfolding lev_state_def upt_from_0 [of m] by (simp only: list.map le_refl if_True)
  then show ?thesis
    unfolding r0 rest lev_init_eq .
qed

lemma length_lev_state [simp]: "length (lev_state s t m n filled) = Suc m"
  by (simp add: lev_state_def)

lemma nth_lev_state:
  "r \<le> m \<Longrightarrow> lev_state s t m n filled ! r =
     (if r \<le> filled then map (edit_distance s t r) [0..<Suc n] else [r])"
  unfolding lev_state_def by (subst nth_map) (simp_all del: upt_Suc add: nth_upt)

text \<open>The inner loop completes row \<open>Suc i\<close>, one cell for each \<open>j\<close>.\<close>

lemma lev_row_fill:
  assumes "Suc i \<le> m" and "k \<le> n"
  shows "fold (\<lambda>j M. lev_cell s t (Suc i) j M) [1..<Suc k] (lev_state s t m n i) =
         (lev_state s t m n i)[Suc i := map (edit_distance s t (Suc i)) [0..<Suc k]]"
  using assms(2)
proof (induction k)
  case 0
  have "lev_state s t m n i ! Suc i = [Suc i]"
    using assms(1) by (simp add: nth_lev_state)
  then have "(lev_state s t m n i)[Suc i := [Suc i]] = lev_state s t m n i"
    by (metis list_update_id)
  then show ?case
    by simp
next
  case (Suc k)
  let ?S = "lev_state s t m n i"
  let ?R = "map (edit_distance s t (Suc i)) [0..<Suc k]"
  let ?M = "?S[Suc i := ?R]"
  have k: "k \<le> n" "Suc k \<le> n"
    using Suc.prems by simp_all
  have upper: "?M ! i = map (edit_distance s t i) [0..<Suc n]"
    using assms(1) by (simp add: nth_lev_state)
  have row: "?M ! Suc i = ?R"
    using assms(1) by simp
  have up: "?M ! i ! Suc k = edit_distance s t i (Suc k)"
    unfolding upper using k(2) by (subst nth_map) (simp_all del: upt_Suc add: nth_upt)
  have diag: "?M ! i ! k = edit_distance s t i k"
    unfolding upper using k(1) by (subst nth_map) (simp_all del: upt_Suc add: nth_upt)
  have left: "?M ! Suc i ! k = edit_distance s t (Suc i) k"
    unfolding row by (subst nth_map) (simp_all del: upt_Suc add: nth_upt)
  have cell: "lev_cell s t (Suc i) (Suc k) ?M =
              ?M[Suc i := ?R @ [edit_distance s t (Suc i) (Suc k)]]"
    unfolding lev_cell_def Let_def
    using up diag left row by (simp add: js_set_def del: upt_Suc)
  have "[1..<Suc (Suc k)] = [1..<Suc k] @ [Suc k]"
    by simp
  then have "fold (\<lambda>j M. lev_cell s t (Suc i) j M) [1..<Suc (Suc k)] ?S =
             lev_cell s t (Suc i) (Suc k) (fold (\<lambda>j M. lev_cell s t (Suc i) j M) [1..<Suc k] ?S)"
    by (simp only: fold_append fold_simps comp_apply id_apply)
  also have "\<dots> = lev_cell s t (Suc i) (Suc k) ?M"
    using Suc.IH k(1) by simp
  also have "\<dots> = ?S[Suc i := ?R @ [edit_distance s t (Suc i) (Suc k)]]"
    unfolding cell by simp
  also have "?R @ [edit_distance s t (Suc i) (Suc k)] =
             map (edit_distance s t (Suc i)) [0..<Suc (Suc k)]"
    by simp
  finally show ?case .
qed

lemma lev_state_step:
  assumes "Suc i \<le> m"
  shows "(lev_state s t m n i)[Suc i := map (edit_distance s t (Suc i)) [0..<Suc n]] =
         lev_state s t m n (Suc i)"
proof (rule nth_equalityI)
  show "length ((lev_state s t m n i)[Suc i := map (edit_distance s t (Suc i)) [0..<Suc n]]) =
        length (lev_state s t m n (Suc i))"
    by simp
next
  fix r
  assume "r < length ((lev_state s t m n i)[Suc i := map (edit_distance s t (Suc i)) [0..<Suc n]])"
  then have r: "r \<le> m"
    by simp
  show "(lev_state s t m n i)[Suc i := map (edit_distance s t (Suc i)) [0..<Suc n]] ! r =
        lev_state s t m n (Suc i) ! r"
  proof (cases "r = Suc i")
    case True
    then show ?thesis
      using assms by (simp add: nth_lev_state del: upt_Suc)
  next
    case False
    then show ?thesis
      using r by (auto simp: nth_lev_state simp del: upt_Suc)
  qed
qed

lemma lev_rows_fill:
  assumes "i \<le> m"
  shows "fold (\<lambda>i M. fold (\<lambda>j M. lev_cell s t i j M) [1..<n + 1] M) [1..<Suc i] (lev_init m n) =
         lev_state s t m n i"
  using assms
proof (induction i)
  case 0
  then show ?case
    by (simp add: lev_state_0)
next
  case (Suc i)
  have "[1..<Suc (Suc i)] = [1..<Suc i] @ [Suc i]"
    by simp
  then have "fold (\<lambda>i M. fold (\<lambda>j M. lev_cell s t i j M) [1..<n + 1] M) [1..<Suc (Suc i)]
               (lev_init m n) =
             fold (\<lambda>j M. lev_cell s t (Suc i) j M) [1..<n + 1]
               (fold (\<lambda>i M. fold (\<lambda>j M. lev_cell s t i j M) [1..<n + 1] M) [1..<Suc i]
                  (lev_init m n))"
    by (simp only: fold_append fold_simps comp_apply id_apply)
  also have "\<dots> = fold (\<lambda>j M. lev_cell s t (Suc i) j M) [1..<Suc n] (lev_state s t m n i)"
    using Suc by simp
  also have "\<dots> = (lev_state s t m n i)[Suc i := map (edit_distance s t (Suc i)) [0..<Suc n]]"
    using Suc.prems by (intro lev_row_fill) simp_all
  also have "\<dots> = lev_state s t m n (Suc i)"
    using Suc.prems by (rule lev_state_step)
  finally show ?case .
qed

text \<open>The matrix loop computes the edit distance of the two strings.\<close>

lemma levenshteinDistance_eq:
  "levenshteinDistance str1 str2 = edit_distance str1 str2 (length str1) (length str2)"
proof -
  have "lev_matrix str1 str2 = lev_state str1 str2 (length str1) (length str2) (length str1)"
    unfolding lev_matrix_def using lev_rows_fill [of "length str1" "length str1" str1 str2 "length str2"]
    by simp
  then show ?thesis
    unfolding levenshteinDistance_def
    by (simp add: nth_lev_state del: upt_Suc)
qed

lemma levenshteinDistance_le:
  "levenshteinDistance str1 str2 \<le> max (length str1) (length str2)"
  unfolding levenshteinDistance_eq by (rule edit_distance_le)

lemma levenshteinDistance_empty:
  "levenshteinDistance [] str2 = length str2" "levenshteinDistance str1 [] = length str1"
  unfolding levenshteinDistance_eq by simp_all

text \<open>
  Away from the degenerate input the similarity is a number between 0 and 1, within
  \<open>2 ^ -52\<close> of one minus the edit distance over the greater length, and it is 0 when
  exactly one of the two normalised texts is empty.
\<close>

lemma calculateSimilarity_range:
  assumes "normalizeText u text1 \<noteq> [] \<or> normalizeText u text2 \<noteq> []"
  shows "\<exists>q. calculateSimilarity u text1 text2 = Fin q \<and> 0 \<le> q \<and> q \<le> 1 \<and>
             \<bar>q - (1 - of_nat (levenshteinDistance (normalizeText u text1) (normalizeText u text2))
                      / of_nat (max (length (normalizeText u text1))
                                    (length (normalizeText u text2))))\<bar> \<le> 1 / 2 ^ 52"
proof -
  define d where "d = levenshteinDistance (normalizeText u text1) (normalizeText u text2)"
  define m where "m = max (length (normalizeText u text1)) (length (normalizeText u text2))"
  define x1 :: rat where "x1 = of_nat d / of_nat m"
  have m: "0 < m"
    using assms by (auto simp: m_def max_def)
  have d: "d \<le> m"
    unfolding d_def m_def by (rule levenshteinDistance_le)
  have "(of_nat d :: rat) \<le> of_nat m"
    using d by (simp only: of_nat_le_iff)
  then have x1: "0 \<le> x1" "x1 \<le> 1"
    using m by (simp_all add: x1_def divide_le_eq_1)
  from to_double_near [OF x1(1), of 0] x1(2)
  obtain a where a: "to_double x1 = Fin a" "\<bar>a - x1\<bar> \<le> 1 / 2 ^ 53"
    by (auto simp: pow2_def)
  from to_double_le_int [of x1 1] x1 a have a1: "a \<le> 1"
    by auto
  from to_double_ge_int [of 0 x1] x1 a have a0: "0 \<le> a"
    by auto
  define x2 where "x2 = 1 - a"
  have x2: "0 \<le> x2" "x2 \<le> 1"
    using a0 a1 by (simp_all add: x2_def)
  from to_double_near [OF x2(1), of 0] x2(2)
  obtain q where q: "to_double x2 = Fin q" "\<bar>q - x2\<bar> \<le> 1 / 2 ^ 53"
    by (auto simp: pow2_def)
  from to_double_le_int [of x2 1] x2 q have q1: "q \<le> 1"
    by auto
  from to_double_ge_int [of 0 x2] x2 q have q0: "0 \<le> q"
    by auto
  have "calculateSimilarity u text1 text2 =
        num_sub (Fin 1) (num_div (number_of_nat d) (number_of_nat m))"
    by (simp add: calculateSimilarity_def Let_def d_def m_def)
  also have "num_div (number_of_nat d) (number_of_nat m) = Fin a"
    using m by (simp add: number_of_nat_def x1_def [symmetric] a(1))
  also have "num_sub (Fin 1) (Fin a) = Fin q"
    by (simp add: num_sub_def x2_def [symmetric] q(1))
  finally have "calculateSimilarity u text1 text2 = Fin q" .
  moreover have "\<bar>q - (1 - x1)\<bar> \<le> 1 / 2 ^ 52"
  proof -
    have "\<bar>q - (1 - x1)\<bar> \<le> \<bar>q - x2\<bar> + \<bar>a - x1\<bar>"
      unfolding x2_def by linarith
    also have "\<dots> \<le> 1 / 2 ^ 53 + 1 / 2 ^ 53"
      by (intro add_mono q(2) a(2))
    also have "\<dots> = 1 / 2 ^ 52"
      by simp
    finally show ?thesis .
  qed
  ultimately show ?thesis
    using q0 q1 unfolding x1_def d_def m_def by blast
qed

lemma to_double_0: "to_double 0 = Fin 0"
  by (simp add: to_double_def)

lemma to_double_1: "to_double 1 = Fin 1"
  using to_double_of_int [of 1] by simp

lemma calculateSimilarity_one_empty:
  assumes "normalizeText u text1 = []" and "normalizeText u text2 \<noteq> []"
  shows "calculateSimilarity u text1 text2 = Fin 0" and "calculateSimilarity u text2 text1 = Fin 0"
  using assms
  by (simp_all add: calculateSimilarity_def Let_def number_of_nat_def num_sub_def
        levenshteinDistance_empty to_double_1 to_double_0)

text \<open>
  C6, at the input where the code departs from it: two texts that normalise to the empty
  string have distance 0 and maximal length 0, and \<open>1 - 0 / 0\<close> is \<open>NaN\<close>, not 1.
\<close>

theorem calculateSimilarity_both_empty:
  "calculateSimilarity u [] [] = NaN \<and>
   calculateSimilarity ex_unicode [0xFF0C, 0x0020] [0x3002] = NaN"
proof
  have "normalizeText u [] = []"
    by (simp add: normalizeText_def toLowerCase_def trim_def)
  then show "calculateSimilarity u [] [] = NaN"
    by (simp add: calculateSimilarity_def Let_def levenshteinDistance_empty number_of_nat_def
          num_sub_def)
  show "calculateSimilarity ex_unicode [0xFF0C, 0x0020] [0x3002] = NaN"
    by code_simp
qed

section \<open>Randomisation\<close>

lemma rand_index_less:
  assumes "0 \<le> rnd k" and "rnd k < 1" and "0 < n"
  shows "rand_index rnd k n < n"
proof -
  have "rnd k * of_nat n < of_nat n"
    using assms by simp
  then have "\<lfloor>rnd k * of_nat n\<rfloor> < int n"
    by (simp add: floor_less_iff)
  moreover have "0 \<le> \<lfloor>rnd k * of_nat n\<rfloor>"
    using assms(1) by simp
  ultimately show ?thesis
    unfolding rand_index_def by (simp only: nat_less_iff)
qed

lemma length_shuffle_loop [simp]: "length (shuffle_loop rnd k i xs) = length xs"
  by (induction i arbitrary: k xs) (simp_all add: Let_def)

text \<open>With a generator that stays in \<open>[0, 1)\<close> every swap is in range: a permutation.\<close>

lemma mset_shuffle_loop:
  assumes "\<forall>k. 0 \<le> rnd k \<and> rnd k < 1" and "i < length xs"
  shows "mset (shuffle_loop rnd k i xs) = mset xs"
  using assms(2)
proof (induction i arbitrary: k xs)
  case 0
  then show ?case by simp
next
  case (Suc i)
  let ?j = "rand_index rnd k (Suc i + 1)"
  have "?j < Suc i + 1"
    using assms(1) by (intro rand_index_less) simp_all
  then have j: "?j < length xs"
    using Suc.prems by simp
  have swap: "mset (xs[Suc i := xs ! ?j, ?j := xs ! Suc i]) = mset xs"
    using Suc.prems j by (simp add: mset_swap)
  have "i < length (xs[Suc i := xs ! ?j, ?j := xs ! Suc i])"
    using Suc.prems by simp
  from Suc.IH [OF this, of "k + 1"] swap show ?case
    by (simp add: Let_def)
qed

lemma mset_shuffleArray:
  assumes "\<forall>k. 0 \<le> rnd k \<and> rnd k < 1"
  shows "mset (shuffleArray rnd k xs) = mset xs"
proof (cases xs)
  case Nil
  then show ?thesis by (simp add: shuffleArray_def)
next
  case (Cons x rest)
  then have "length xs - 1 < length xs" by simp
  from mset_shuffle_loop [OF assms this] show ?thesis
    by (simp add: shuffleArray_def)
qed

lemma length_shuffleArray [simp]: "length (shuffleArray rnd k xs) = length xs"
  by (simp add: shuffleArray_def)

text \<open>Giving new ids by position keeps the order and everything but the ids.\<close>

lemma hd_renumber:
  "xs \<noteq> [] \<Longrightarrow> hd (map (\<lambda>(i, s). g i s) (enumerate k xs)) = g k (hd xs)"
  by (cases xs) simp_all

lemma last_renumber:
  assumes "xs \<noteq> []"
  shows "last (map (\<lambda>(i, s). g i s) (enumerate k xs)) = g (k + length xs - 1) (last xs)"
proof -
  have n: "length xs - 1 < length xs"
    using assms by simp
  have "map (\<lambda>(i, s). g i s) (enumerate k xs) \<noteq> []"
    using assms by (cases xs) simp_all
  from last_conv_nth [OF this] n assms show ?thesis
    by (simp add: nth_enumerate_eq last_conv_nth)
qed

lemma erase_renumber:
  "map (\<lambda>s. s\<lparr>seg_id := x\<rparr>) (map (\<lambda>(i, s). s\<lparr>seg_id := newId i\<rparr>) (enumerate k xs)) =
   map (\<lambda>s. s\<lparr>seg_id := x\<rparr>) xs"
  by (induction xs arbitrary: k) simp_all

text \<open>The reordering step: the interior is replaced by its shuffle.\<close>

lemma reorder_ends:
  assumes "3 < length segments" and "length shuffled = length segments - 2"
  shows "hd (take 1 segments @ shuffled @ drop (1 + (length segments - 2)) segments) = hd segments"
    and "last (take 1 segments @ shuffled @ drop (1 + (length segments - 2)) segments) = last segments"
    and "length (take 1 segments @ shuffled @ drop (1 + (length segments - 2)) segments) = length segments"
proof -
  have ne: "segments \<noteq> []"
    using assms(1) by auto
  then show "hd (take 1 segments @ shuffled @ drop (1 + (length segments - 2)) segments) = hd segments"
    by (cases segments) simp_all
  have tail: "drop (1 + (length segments - 2)) segments = [last segments]"
  proof -
    have "1 + (length segments - 2) = length segments - 1"
      using assms(1) by simp
    moreover have "drop (length segments - 1) segments = [last segments]"
      using ne by (cases segments rule: rev_cases) simp_all
    ultimately show ?thesis by simp
  qed
  show "last (take 1 segments @ shuffled @ drop (1 + (length segments - 2)) segments) = last segments"
    unfolding tail by simp
  show "length (take 1 segments @ shuffled @ drop (1 + (length segments - 2)) segments) = length segments"
    using assms by simp
qed

lemma reorder_mset:
  assumes "3 < length segments" and "mset shuffled = mset (take (length segments - 2) (drop 1 segments))"
  shows "mset (take 1 segments @ shuffled @ drop (1 + (length segments - 2)) segments) = mset segments"
proof -
  let ?middle = "take (length segments - 2) (drop 1 segments)"
  let ?tail = "drop (1 + (length segments - 2)) segments"
  have tail: "drop (length segments - 2) (drop 1 segments) = ?tail"
    by (simp add: add.commute)
  have "segments = take 1 segments @ drop 1 segments"
    by (simp only: append_take_drop_id)
  also have "drop 1 segments = ?middle @ drop (length segments - 2) (drop 1 segments)"
    by (simp only: append_take_drop_id)
  finally have "segments = take 1 segments @ ?middle @ ?tail"
    unfolding tail .
  then have "mset segments = mset (take 1 segments @ ?middle @ ?tail)"
    by simp
  also have "\<dots> = mset (take 1 segments @ shuffled @ ?tail)"
    using assms(2) by simp
  finally show ?thesis
    by simp
qed

text \<open>
  C8: for a script with two or more segments \<open>addRandomness\<close> keeps the first segment
  first and the last segment last; a segment is the same up to its \<open>id\<close>, which is
  assigned anew. The number of segments is kept, and the segments of the result are a
  rearrangement of those of the input.
\<close>

theorem addRandomness_pins_ends:
  assumes "\<forall>k. 0 \<le> rnd k \<and> rnd k < 1"
    and "2 \<le> length (script_segments script)"
  shows
    "length (script_segments (addRandomness config rnd newId now script)) =
       length (script_segments script) \<and>
     (hd (script_segments (addRandomness config rnd newId now script)))
       \<lparr>seg_id := seg_id (hd (script_segments script))\<rparr> = hd (script_segments script) \<and>
     (last (script_segments (addRandomness config rnd newId now script)))
       \<lparr>seg_id := seg_id (last (script_segments script))\<rparr> = last (script_segments script) \<and>
     mset (map (\<lambda>s. s\<lparr>seg_id := []\<rparr>) (script_segments (addRandomness config rnd newId now script))) =
       mset (map (\<lambda>s. s\<lparr>seg_id := []\<rparr>) (script_segments script))"
proof (cases "ucfg_addRandomness config")
  case False
  then show ?thesis
    by (simp add: addRandomness_def)
next
  case True
  let ?segs = "script_segments script"
  let ?middle = "take (length ?segs - 2) (drop 1 ?segs)"
  let ?shuffled = "shuffleArray rnd 4 ?middle"
  let ?renumber = "\<lambda>(index, s). s\<lparr>seg_id := newId index\<rparr>"
  define segs' where
    "segs' = (if 3 < length ?segs
              then take 1 ?segs @ ?shuffled @ drop (1 + length ?middle) ?segs else ?segs)"
  have out: "script_segments (addRandomness config rnd newId now script) =
             map ?renumber (enumerate 0 segs')"
    using True by (simp add: addRandomness_def Let_def segs'_def)
  have mid: "length ?middle = length ?segs - 2"
    using assms(2) by simp
  have all: "length segs' = length ?segs \<and> hd segs' = hd ?segs \<and> last segs' = last ?segs \<and>
             mset segs' = mset ?segs"
  proof (cases "3 < length ?segs")
    case False
    then show ?thesis
      by (simp add: segs'_def)
  next
    case long: True
    have len: "length ?shuffled = length ?segs - 2"
      using mid by simp
    have perm: "mset ?shuffled = mset ?middle"
      by (rule mset_shuffleArray [OF assms(1)])
    have eq: "segs' = take 1 ?segs @ ?shuffled @ drop (1 + (length ?segs - 2)) ?segs"
      using long mid by (simp add: segs'_def)
    show ?thesis
      unfolding eq
      using reorder_ends [OF long len] reorder_mset [OF long perm] by simp
  qed
  then have keep: "length segs' = length ?segs" "hd segs' = hd ?segs" "last segs' = last ?segs"
                  "mset segs' = mset ?segs"
    by simp_all
  have ne: "segs' \<noteq> []"
    using keep(1) assms(2) by (cases segs') simp_all
  have first: "hd (map ?renumber (enumerate 0 segs')) = (hd segs')\<lparr>seg_id := newId 0\<rparr>"
    using hd_renumber [OF ne, of "\<lambda>i s. s\<lparr>seg_id := newId i\<rparr>" 0] by simp
  have final: "last (map ?renumber (enumerate 0 segs')) =
               (last segs')\<lparr>seg_id := newId (0 + length segs' - 1)\<rparr>"
    using last_renumber [OF ne, of "\<lambda>i s. s\<lparr>seg_id := newId i\<rparr>" 0] by simp
  have erased: "map (\<lambda>s. s\<lparr>seg_id := []\<rparr>) (map ?renumber (enumerate 0 segs')) =
                map (\<lambda>s. s\<lparr>seg_id := []\<rparr>) segs'"
    by (rule erase_renumber)
  have perm: "mset (map (\<lambda>s. s\<lparr>seg_id := []\<rparr>) segs') =
              mset (map (\<lambda>s. s\<lparr>seg_id := []\<rparr>) ?segs)"
    using keep(4) by (simp only: mset_map)
  show ?thesis
    unfolding out first final erased perm using keep(1,2,3) by simp
qed

theorem addRandomness_pins_ends_witness:
  "2 \<le> length (script_segments ex_five_script) \<and>
   (hd (script_segments
          (addRandomness default_UniquenessConfig ex_rnd ex_newId (ascii ''now'') ex_five_script)))
     \<lparr>seg_id := ascii ''seg-1''\<rparr> = ex_segment \<and>
   (last (script_segments
            (addRandomness default_UniquenessConfig ex_rnd ex_newId (ascii ''now'') ex_five_script)))
     \<lparr>seg_id := ascii ''seg-5''\<rparr> =
     ex_segment\<lparr>seg_id := ascii ''seg-5'', seg_content := ascii ''five''\<rparr>"
proof -
  have valid: "\<forall>k. 0 \<le> ex_rnd k \<and> ex_rnd k < 1"
    by (simp add: ex_rnd_def)
  have two: "2 \<le> length (script_segments ex_five_script)"
    by (simp add: ex_five_script_def)
  have ends: "hd (script_segments ex_five_script) = ex_segment"
             "last (script_segments ex_five_script) =
                ex_segment\<lparr>seg_id := ascii ''seg-5'', seg_content := ascii ''five''\<rparr>"
             "seg_id ex_segment = ascii ''seg-1''"
    by (simp_all add: ex_five_script_def ex_segment_def)
  show ?thesis
    using two ends
      addRandomness_pins_ends [OF valid two, of default_UniquenessConfig ex_newId "ascii ''now''"]
    by simp
qed

section \<open>Variant selection\<close>

lemma variant_ids: "map var_id DEDUP_VARIANTS =
  [Conservative, Balanced, Aggressive, Creative, Academic, Casual, Poetic, Technical]"
  by (simp add: DEDUP_VARIANTS_def)

lemma every_id_has_variant: "\<exists>v\<in>set DEDUP_VARIANTS. var_id v = t"
proof -
  have "t \<in> set (map var_id DEDUP_VARIANTS)"
    unfolding variant_ids by (cases t) simp_all
  then show ?thesis
    by auto
qed

lemma available_nonempty:
  assumes "t \<notin> usedVariants" and "\<not> is_excluded exclude t"
  shows "filter (\<lambda>v. var_id v \<notin> usedVariants \<and> \<not> is_excluded exclude (var_id v)) DEDUP_VARIANTS \<noteq> []"
proof -
  obtain v where "v \<in> set DEDUP_VARIANTS" "var_id v = t"
    using every_id_has_variant by blast
  then have "v \<in> set (filter (\<lambda>v. var_id v \<notin> usedVariants \<and> \<not> is_excluded exclude (var_id v))
                        DEDUP_VARIANTS)"
    using assms by simp
  then show ?thesis
    by (metis empty_iff list.set(1))
qed

lemma random_pick_in_range:
  assumes "0 \<le> (r :: rat)" and "r < 1" and "xs \<noteq> []"
  shows "xs ! nat \<lfloor>r * of_nat (length xs)\<rfloor> \<in> set xs"
proof -
  have "rand_index (\<lambda>_. r) 0 (length xs) < length xs"
    using assms by (intro rand_index_less) simp_all
  then show ?thesis
    by (simp add: rand_index_def)
qed

text \<open>When a variant is available the call returns at once.\<close>

lemma selectVariant_available:
  assumes "0 \<le> r" and "r < 1"
    and "filter (\<lambda>v. var_id v \<notin> usedVariants \<and> \<not> is_excluded exclude (var_id v)) DEDUP_VARIANTS \<noteq> []"
  shows "\<exists>selected. selectVariant usedVariants exclude r =
                       Some (selected, insert (var_id selected) usedVariants) \<and>
                     selected \<in> set DEDUP_VARIANTS \<and> var_id selected \<notin> usedVariants \<and>
                     \<not> is_excluded exclude (var_id selected)"
proof -
  let ?available = "filter (\<lambda>v. var_id v \<notin> usedVariants \<and> \<not> is_excluded exclude (var_id v))
                      DEDUP_VARIANTS"
  let ?selected = "?available ! nat \<lfloor>r * of_nat (length ?available)\<rfloor>"
  have "?selected \<in> set ?available"
    by (rule random_pick_in_range [OF assms])
  then have props: "?selected \<in> set DEDUP_VARIANTS" "var_id ?selected \<notin> usedVariants"
                   "\<not> is_excluded exclude (var_id ?selected)"
    by simp_all
  have "selectVariant usedVariants exclude r = Some (?selected, insert (var_id ?selected) usedVariants)"
    using assms(3) by (subst selectVariant.simps) (simp add: Let_def)
  then show ?thesis
    using props by blast
qed

text \<open>A call that returns has found a variant that is not excluded.\<close>

lemma selectVariant_Some_not_all_excluded:
  assumes "selectVariant usedVariants exclude r = Some y"
  shows "\<exists>t. \<not> is_excluded exclude t"
proof (rule selectVariant.raw_induct
         [where P = "\<lambda>used ex r y. \<exists>t. \<not> is_excluded ex t", OF _ assms])
  fix f :: "DedupVariantType set \<Rightarrow> DedupVariantType list option \<Rightarrow> rat \<Rightarrow>
            (DedupVariant \<times> DedupVariantType set) option"
    and used ex r' y'
  let ?available = "filter (\<lambda>v. var_id v \<notin> used \<and> \<not> is_excluded ex (var_id v)) DEDUP_VARIANTS"
  assume IH: "\<And>used ex r y. f used ex r = Some y \<Longrightarrow> \<exists>t. \<not> is_excluded ex t"
    and body: "(let available = ?available
                in if length available = 0 then f {} ex r'
                   else let selected = available ! nat \<lfloor>r' * rat_of_nat (length available)\<rfloor>
                        in Some (selected, insert (var_id selected) used)) = Some y'"
  show "\<exists>t. \<not> is_excluded ex t"
  proof (cases "?available = []")
    case True
    then have "f {} ex r' = Some y'"
      using body unfolding Let_def True by simp
    then show ?thesis
      by (rule IH)
  next
    case False
    then obtain v where "v \<in> set ?available"
      by (meson last_in_set)
    then show ?thesis
      by auto
  qed
qed

text \<open>
  C10: \<open>selectVariant(exclude)\<close> returns whenever the exclude list omits one of the eight
  variant ids; the variant returned is not excluded, and it is not in the used set, which
  is cleared first when every variant that is not excluded has been used; the variant is
  then added to the used set. When all eight ids are excluded the call does not return.
\<close>

theorem selectVariant_terminates_unless_all_excluded:
  assumes "0 \<le> r" and "r < 1"
  shows
    "if \<forall>t. is_excluded exclude t
     then selectVariant usedVariants exclude r = None
     else (\<exists>selected used'.
             selectVariant usedVariants exclude r = Some (selected, used') \<and>
             selected \<in> set DEDUP_VARIANTS \<and>
             \<not> is_excluded exclude (var_id selected) \<and>
             (if \<exists>t. t \<notin> usedVariants \<and> \<not> is_excluded exclude t
              then var_id selected \<notin> usedVariants \<and> used' = insert (var_id selected) usedVariants
              else used' = {var_id selected}))"
proof (cases "\<forall>t. is_excluded exclude t")
  case True
  have "selectVariant usedVariants exclude r = None"
  proof (cases "selectVariant usedVariants exclude r")
    case None
    then show ?thesis .
  next
    case (Some y)
    from selectVariant_Some_not_all_excluded [OF this] True show ?thesis
      by blast
  qed
  then show ?thesis
    by (simp only: if_P [OF True])
next
  case False
  then obtain t0 where t0: "\<not> is_excluded exclude t0"
    by blast
  let ?available = "filter (\<lambda>v. var_id v \<notin> usedVariants \<and> \<not> is_excluded exclude (var_id v))
                      DEDUP_VARIANTS"
  have "\<exists>selected used'.
          selectVariant usedVariants exclude r = Some (selected, used') \<and>
          selected \<in> set DEDUP_VARIANTS \<and>
          \<not> is_excluded exclude (var_id selected) \<and>
          (if \<exists>t. t \<notin> usedVariants \<and> \<not> is_excluded exclude t
           then var_id selected \<notin> usedVariants \<and> used' = insert (var_id selected) usedVariants
           else used' = {var_id selected})"
  proof (cases "\<exists>t. t \<notin> usedVariants \<and> \<not> is_excluded exclude t")
    case fresh: True
    then obtain t where "t \<notin> usedVariants" "\<not> is_excluded exclude t"
      by blast
    then have "?available \<noteq> []"
      by (rule available_nonempty)
    from selectVariant_available [OF assms this] fresh show ?thesis
      by auto
  next
    case exhausted: False
    have empty: "?available = []"
    proof (rule ccontr)
      assume "?available \<noteq> []"
      then obtain v where "v \<in> set ?available"
        by (meson last_in_set)
      then show False
        using exhausted by auto
    qed
    have again: "selectVariant usedVariants exclude r = selectVariant {} exclude r"
      using empty by (subst selectVariant.simps) (simp add: Let_def)
    have "filter (\<lambda>v. var_id v \<notin> {} \<and> \<not> is_excluded exclude (var_id v)) DEDUP_VARIANTS \<noteq> []"
      using t0 by (intro available_nonempty [of t0]) simp_all
    from selectVariant_available [OF assms this] obtain selected where
      "selectVariant {} exclude r = Some (selected, insert (var_id selected) {})"
      "selected \<in> set DEDUP_VARIANTS" "\<not> is_excluded exclude (var_id selected)"
      by blast
    then show ?thesis
      using again exhausted by auto
  qed
  then show ?thesis
    by (simp only: if_not_P [OF False])
qed

theorem selectVariant_terminates_unless_all_excluded_witness:
  "selectVariant {}
     (Some [Conservative, Balanced, Aggressive, Creative, Academic, Casual, Poetic, Technical])
     (1 / 2) = None \<and>
   (\<exists>selected used'.
      selectVariant {Conservative} None (1 / 2) = Some (selected, used') \<and>
      selected \<in> set DEDUP_VARIANTS \<and> var_id selected \<noteq> Conservative \<and>
      used' = {Conservative, var_id selected})"
proof -
  let ?all = "Some [Conservative, Balanced, Aggressive, Creative, Academic, Casual, Poetic, Technical]"
  have r: "(0 :: rat) \<le> 1 / 2" "(1 / 2 :: rat) < 1"
    by simp_all
  have every: "\<forall>t. is_excluded ?all t"
  proof
    fix t show "is_excluded ?all t"
      by (cases t) (simp_all add: is_excluded_def)
  qed
  have none: "\<not> (\<forall>t. is_excluded None t)"
    by (simp add: is_excluded_def)
  have fresh: "\<exists>t. t \<notin> {Conservative} \<and> \<not> is_excluded None t"
    by (intro exI [of _ Balanced]) (simp add: is_excluded_def)
  have "selectVariant {} ?all (1 / 2) = None"
    using selectVariant_terminates_unless_all_excluded [OF r, of ?all "{}"]
    unfolding if_P [OF every] .
  moreover have "\<exists>selected used'.
      selectVariant {Conservative} None (1 / 2) = Some (selected, used') \<and>
      selected \<in> set DEDUP_VARIANTS \<and> var_id selected \<noteq> Conservative \<and>
      used' = {Conservative, var_id selected}"
    using selectVariant_terminates_unless_all_excluded [OF r, of None "{Conservative}"]
    unfolding if_not_P [OF none] if_P [OF fresh]
    by auto
  ultimately show ?thesis
    by blast
qed

section \<open>Duplicate detection\<close>

lemma dedup_filter_subset: "set (dedup_filter seen results) \<subseteq> set results"
  by (induction results arbitrary: seen) (auto simp: Let_def)

lemma dedup_filter_unseen:
  "r \<in> set (dedup_filter seen results) \<Longrightarrow>
   pair_key (source_id r) (target_id r) \<notin> seen \<and> pair_key (target_id r) (source_id r) \<notin> seen"
proof (induction results arbitrary: seen)
  case Nil
  then show ?case by simp
next
  case (Cons result rest)
  show ?case
  proof (cases "pair_key (source_id result) (target_id result) \<in> seen \<or> pair_key (target_id result) (source_id result) \<in> seen")
    case True
    then show ?thesis
      using Cons by (simp add: Let_def)
  next
    case False
    then have "r = result \<or> r \<in> set (dedup_filter (insert (pair_key (source_id result) (target_id result)) seen) rest)"
      using Cons.prems by (simp add: Let_def)
    then show ?thesis
      using False Cons.IH by blast
  qed
qed

lemma dedup_filter_distinct:
  "distinct (map (\<lambda>r. {source_id r, target_id r}) (dedup_filter seen results))"
proof (induction results arbitrary: seen)
  case Nil
  then show ?case by simp
next
  case (Cons result rest)
  let ?key = "pair_key (source_id result) (target_id result)"
  show ?case
  proof (cases "?key \<in> seen \<or> pair_key (target_id result) (source_id result) \<in> seen")
    case True
    then show ?thesis
      using Cons.IH by (simp add: Let_def)
  next
    case False
    have "{source_id result, target_id result} \<noteq> {source_id r, target_id r}"
      if "r \<in> set (dedup_filter (insert ?key seen) rest)" for r
    proof
      assume "{source_id result, target_id result} = {source_id r, target_id r}"
      then consider "source_id r = source_id result \<and> target_id r = target_id result" | "source_id r = target_id result \<and> target_id r = source_id result"
        by (metis doubleton_eq_iff)
      then show False
      proof cases
        case 1
        then have "pair_key (source_id r) (target_id r) = ?key" by simp
        then show False
          using dedup_filter_unseen [OF that] by simp
      next
        case 2
        then have "pair_key (target_id r) (source_id r) = ?key" by simp
        then show False
          using dedup_filter_unseen [OF that] by simp
      qed
    qed
    then have notin: "{source_id result, target_id result} \<notin>
                        (\<lambda>r. {source_id r, target_id r}) ` set (dedup_filter (insert ?key seen) rest)"
      by blast
    have eq: "dedup_filter seen (result # rest) = result # dedup_filter (insert ?key seen) rest"
      using False by (simp add: Let_def)
    show ?thesis
      unfolding eq using notin Cons.IH [of "insert ?key seen"] by simp
  qed
qed

lemma mset_insert_by: "mset (insert_by cmp x xs) = add_mset x (mset xs)"
  by (induction xs) simp_all

lemma mset_js_sort: "mset (js_sort cmp xs) = mset xs"
  unfolding js_sort_def by (induction xs) (simp_all add: mset_insert_by)

lemma index_pairs_iff: "(i, j) \<in> set (index_pairs n) \<longleftrightarrow> i < j \<and> j < n"
  by (force simp: index_pairs_def)

lemma from_positions_iff:
  "from_positions segments r \<longleftrightarrow>
   (\<exists>i j. i < j \<and> j < length segments \<and>
          source_id r = seg_id (segments ! i) \<and> target_id r = seg_id (segments ! j))"
proof
  assume "from_positions segments r"
  then obtain p where "p \<in> set (index_pairs (length segments))"
    "source_id r = seg_id (segments ! fst p) \<and> target_id r = seg_id (segments ! snd p)"
    by (auto simp: from_positions_def list_ex_iff)
  then show "\<exists>i j. i < j \<and> j < length segments \<and>
                   source_id r = seg_id (segments ! i) \<and> target_id r = seg_id (segments ! j)"
    using index_pairs_iff [of "fst p" "snd p" "length segments"] by auto
next
  assume "\<exists>i j. i < j \<and> j < length segments \<and>
                 source_id r = seg_id (segments ! i) \<and> target_id r = seg_id (segments ! j)"
  then obtain i j where "i < j" "j < length segments"
    "source_id r = seg_id (segments ! i)" "target_id r = seg_id (segments ! j)"
    by blast
  then show "from_positions segments r"
    unfolding from_positions_def list_ex_iff
    using index_pairs_iff [of i j "length segments"] by (intro bexI [of _ "(i, j)"]) simp_all
qed


text \<open>
  The exact pass: every id stored in \<open>contentMap\<close> belongs to a segment already passed,
  so \<open>find\<close> succeeds, and a result pairs an earlier segment with a later one.
\<close>

lemma detectExact_loop_ok:
  assumes "segments = before @ rest"
    and "\<forall>n ident. contentMap n = Some ident \<longrightarrow> ident \<in> seg_id ` set before"
    and "\<forall>r\<in>set duplicates. dup_type r = Exact \<and> from_positions segments r"
  shows "\<exists>rs. detectExact_loop fresh normalizeFn segments contentMap duplicates rest = Inr rs \<and>
              (\<forall>r\<in>set rs. dup_type r = Exact \<and> from_positions segments r)"
  using assms
proof (induction rest arbitrary: before contentMap duplicates)
  case Nil
  then show ?case by simp
next
  case (Cons segment rest)
  let ?normalized = "normalizeFn (seg_content segment)"
  have split: "segments = (before @ [segment]) @ rest"
    using Cons.prems(1) by simp
  have here: "segments ! length before = segment" "length before < length segments"
    using Cons.prems(1) by simp_all
  show ?case
  proof (cases "contentMap ?normalized")
    case None
    have inv: "\<forall>n ident. (contentMap(?normalized \<mapsto> seg_id segment)) n = Some ident \<longrightarrow>
                 ident \<in> seg_id ` set (before @ [segment])"
      using Cons.prems(2) by auto
    have step: "detectExact_loop fresh normalizeFn segments contentMap duplicates (segment # rest) =
                detectExact_loop fresh normalizeFn segments
                  (contentMap(?normalized \<mapsto> seg_id segment)) duplicates rest"
      using None by (simp add: Let_def)
    show ?thesis
      unfolding step by (rule Cons.IH [OF split inv Cons.prems(3)])
  next
    case (Some existingId)
    then have "existingId \<in> seg_id ` set before"
      using Cons.prems(2) by blast
    then obtain s where s: "s \<in> set before" "seg_id s = existingId"
      by blast
    then obtain i where i: "i < length before" "before ! i = s"
      by (auto simp: in_set_conv_nth)
    then have at_i: "seg_id (segments ! i) = existingId"
      using Cons.prems(1) s(2) by (simp add: nth_append)
    have "s \<in> set segments"
      using s(1) Cons.prems(1) by simp
    then have "find (\<lambda>s. seg_id s = existingId) segments \<noteq> None"
      using s(2) by (auto simp: find_None_iff)
    then obtain existing where found: "find (\<lambda>s. seg_id s = existingId) segments = Some existing"
      by (cases "find (\<lambda>s. seg_id s = existingId) segments") auto
    then have same: "seg_id existing = existingId"
      by (auto simp: find_Some_iff)
    let ?new = "\<lparr>dup_id = fresh (length duplicates),
                 dup_type = Exact,
                 dup_source = seg_ref existing,
                 dup_target = seg_ref segment,
                 dup_similarity = Fin 1,
                 dup_suggestion = [0x5185, 0x5BB9, 0x5B8C, 0x5168, 0x91CD, 0x590D, 0xFF0C,
                                   0x5EFA, 0x8BAE, 0x5220, 0x9664, 0x6216, 0x5408,
                                   0x5E76]\<rparr>"
    have "from_positions segments ?new"
      unfolding from_positions_iff
      using i(1) at_i same here
      by (intro exI [of _ i] exI [of _ "length before"]) (simp add: seg_ref_def)
    then have acc: "\<forall>r\<in>set (duplicates @ [?new]). dup_type r = Exact \<and> from_positions segments r"
      using Cons.prems(3) by simp
    have inv: "\<forall>n ident. contentMap n = Some ident \<longrightarrow> ident \<in> seg_id ` set (before @ [segment])"
      using Cons.prems(2) by auto
    have step: "detectExact_loop fresh normalizeFn segments contentMap duplicates (segment # rest) =
                detectExact_loop fresh normalizeFn segments contentMap (duplicates @ [?new]) rest"
      using Some found by (simp add: Let_def)
    show ?thesis
      unfolding step by (rule Cons.IH [OF split inv acc])
  qed
qed

lemma detectExactDuplicates_ok:
  "\<exists>rs. detectExactDuplicates fresh segments normalizeFn = Inr rs \<and>
        (\<forall>r\<in>set rs. dup_type r = Exact \<and> from_positions segments r)"
  unfolding detectExactDuplicates_def
  by (rule detectExact_loop_ok [of segments "[]"]) simp_all

lemma enumerate_member: "(k, x) \<in> set (enumerate n xs) \<Longrightarrow> x \<in> set xs"
  by (auto simp: in_set_enumerate_eq)

text \<open>The two pair passes build their results from index pairs \<open>i < j\<close>.\<close>

lemma pair_pass_ok:
  assumes "r \<in> set (map (\<lambda>(k, (i, j)). mk k i j)
                        (enumerate 0 (filter P (index_pairs (length segments)))))"
    and "\<And>k i j. dup_type (mk k i j) = Similar \<and> source_id (mk k i j) = seg_id (segments ! i) \<and>
                  target_id (mk k i j) = seg_id (segments ! j)"
  shows "dup_type r = Similar \<and> from_positions segments r"
proof -
  from assms(1) obtain p where p: "p \<in> set (enumerate 0 (filter P (index_pairs (length segments))))"
    "r = (\<lambda>(k, (i, j)). mk k i j) p"
    unfolding set_map by (rule imageE)
  obtain k i j where kij: "p = (k, (i, j))"
    by (cases p) auto
  have "(i, j) \<in> set (filter P (index_pairs (length segments)))"
    using p(1) unfolding kij by (rule enumerate_member)
  then have "i < j \<and> j < length segments"
    using index_pairs_iff by simp
  moreover have "r = mk k i j"
    using p(2) kij by simp
  ultimately show ?thesis
    using assms(2) [of k i j] from_positions_iff by auto
qed

lemma detectSemanticDuplicates_ok:
  assumes "r \<in> set (detectSemanticDuplicates fresh segments threshold calcSim)"
  shows "dup_type r = Similar \<and> from_positions segments r"
  using assms unfolding detectSemanticDuplicates_def Let_def
  by (rule pair_pass_ok) (simp add: seg_ref_def)

lemma detectStructuralDuplicates_ok:
  assumes "r \<in> set (detectStructuralDuplicates fresh segments threshold calcStruct)"
  shows "dup_type r = Similar \<and> from_positions segments r"
  using assms unfolding detectStructuralDuplicates_def Let_def
  by (rule pair_pass_ok) (simp add: seg_ref_def)

text \<open>
  A template result names the segment it was found in as source and as target, and its
  source content is a phrase that occurs in that segment.
\<close>

lemma detectTemplateContent_ok:
  assumes "r \<in> set (detectTemplateContent fresh segments)"
  shows "dup_type r = Template \<and> source_id r = target_id r \<and>
         (\<exists>s\<in>set segments. target_id r = seg_id s \<and> ref_content (dup_target r) = seg_content s \<and>
            str_includes (seg_content s) (ref_content (dup_source r)))"
proof -
  let ?mk = "\<lambda>(k, (segment, category, phrase)).
            \<lparr>dup_id = fresh k,
             dup_type = Template,
             dup_source = \<lparr>ref_segmentId = seg_id segment, ref_content = phrase,
                           ref_startTime = seg_startTime segment\<rparr>,
             dup_target = seg_ref segment,
             dup_similarity = Fin (1 / 2),
             dup_suggestion =
               [0x68C0, 0x6D4B, 0x5230] @ category @
               [0x5957, 0x8BDD, 0xFF0C, 0x5EFA, 0x8BAE, 0x66FF, 0x6362, 0x4E3A, 0x66F4, 0x539F,
                0x521B, 0x7684, 0x8868, 0x8FBE]\<rparr>"
  from assms obtain p where p: "p \<in> set (enumerate 0 (template_hits segments))" "r = ?mk p"
    unfolding detectTemplateContent_def set_map by (rule imageE)
  obtain k segment category phrase where kp: "p = (k, (segment, category, phrase))"
    by (cases p) auto
  have "(segment, category, phrase) \<in> set (template_hits segments)"
    using p(1) unfolding kp by (rule enumerate_member)
  then have "segment \<in> set segments" "str_includes (seg_content segment) phrase"
    by (auto simp: template_hits_def)
  then show ?thesis
    unfolding p(2) kp by (auto simp: seg_ref_def)
qed

text \<open>
  The results of \<open>detectDuplicates\<close>: a template result is as above, any other result
  relates two positions of the segment list, and no unordered pair of ids occurs twice.
\<close>

lemma detectDuplicates_results:
  "\<exists>results. detectDuplicates u fresh config script = Inr results \<and>
     (\<forall>r\<in>set results.
        (dup_type r = Template \<and> source_id r = target_id r \<and>
         (\<exists>s\<in>set (script_segments script).
            target_id r = seg_id s \<and> ref_content (dup_target r) = seg_content s \<and>
            str_includes (seg_content s) (ref_content (dup_source r)))) \<or>
        (dup_type r \<noteq> Template \<and> from_positions (script_segments script) r)) \<and>
     distinct (map (\<lambda>r. {source_id r, target_id r}) results)"
proof -
  let ?segments = "script_segments script"
  let ?good = "\<lambda>r. (dup_type r = Template \<and> source_id r = target_id r \<and>
                     (\<exists>s\<in>set ?segments.
                        target_id r = seg_id s \<and> ref_content (dup_target r) = seg_content s \<and>
                        str_includes (seg_content s) (ref_content (dup_source r)))) \<or>
                    (dup_type r \<noteq> Template \<and> from_positions ?segments r)"
  obtain exact where exact:
    "(if StratExact \<in> set (cfg_strategies config)
      then detectExactDuplicates (fresh StratExact) ?segments (normalizeText u)
      else Inr []) = Inr exact"
    "\<forall>r\<in>set exact. ?good r"
  proof (cases "StratExact \<in> set (cfg_strategies config)")
    case True
    obtain rs where "detectExactDuplicates (fresh StratExact) ?segments (normalizeText u) = Inr rs"
      "\<forall>r\<in>set rs. dup_type r = Exact \<and> from_positions ?segments r"
      using detectExactDuplicates_ok by blast
    then show ?thesis
      using True that [of rs] by simp
  next
    case False
    then show ?thesis
      using that [of "[]"] by simp
  qed
  define semantic where "semantic =
    (if StratSemantic \<in> set (cfg_strategies config)
     then detectSemanticDuplicates (fresh StratSemantic) ?segments (cfg_threshold config)
            (calculateSimilarity u)
     else [])"
  define template where "template =
    (if StratTemplate \<in> set (cfg_strategies config)
     then detectTemplateContent (fresh StratTemplate) ?segments
     else [])"
  define structural where "structural =
    (if StratStructural \<in> set (cfg_strategies config)
     then detectStructuralDuplicates (fresh StratStructural) ?segments (cfg_threshold config)
            calculateStructureSimilarity
     else [])"
  define merged where "merged = exact @ semantic @ template @ structural"
  define results where "results =
    js_sort (\<lambda>a b. num_sub (dup_similarity b) (dup_similarity a)) (deduplicateResults merged)"
  have run: "detectDuplicates u fresh config script = Inr results"
    unfolding detectDuplicates_def Let_def exact(1)
    by (simp add: results_def merged_def semantic_def template_def structural_def)
  have sem: "?good r" if "r \<in> set semantic" for r
  proof -
    from that have "r \<in> set (detectSemanticDuplicates (fresh StratSemantic) ?segments
                                (cfg_threshold config) (calculateSimilarity u))"
      by (simp add: semantic_def split: if_splits)
    from detectSemanticDuplicates_ok [OF this] show ?thesis
      by simp
  qed
  have tem: "?good r" if "r \<in> set template" for r
  proof -
    from that have "r \<in> set (detectTemplateContent (fresh StratTemplate) ?segments)"
      by (simp add: template_def split: if_splits)
    from detectTemplateContent_ok [OF this] show ?thesis
      by blast
  qed
  have str: "?good r" if "r \<in> set structural" for r
  proof -
    from that have "r \<in> set (detectStructuralDuplicates (fresh StratStructural) ?segments
                                (cfg_threshold config) calculateStructureSimilarity)"
      by (simp add: structural_def split: if_splits)
    from detectStructuralDuplicates_ok [OF this] show ?thesis
      by simp
  qed
  have ex: "?good r" if "r \<in> set exact" for r
    using exact(2) that by blast
  have all: "?good r" if "r \<in> set merged" for r
  proof -
    from that consider "r \<in> set exact" | "r \<in> set semantic" | "r \<in> set template"
      | "r \<in> set structural"
      by (auto simp: merged_def)
    then show ?thesis
      using ex sem tem str by cases blast+
  qed
  have perm: "mset results = mset (deduplicateResults merged)"
    by (simp add: results_def mset_js_sort)
  then have "set results = set (deduplicateResults merged)"
    by (rule mset_eq_setD)
  moreover have "set (deduplicateResults merged) \<subseteq> set merged"
    unfolding deduplicateResults_def by (rule dedup_filter_subset)
  ultimately have good: "\<forall>r\<in>set results. ?good r"
    using all by blast
  have "mset (map (\<lambda>r. {source_id r, target_id r}) results) =
        mset (map (\<lambda>r. {source_id r, target_id r}) (deduplicateResults merged))"
    using perm by (simp only: mset_map)
  moreover have "distinct (map (\<lambda>r. {source_id r, target_id r}) (deduplicateResults merged))"
    unfolding deduplicateResults_def by (rule dedup_filter_distinct)
  ultimately have pairs: "distinct (map (\<lambda>r. {source_id r, target_id r}) results)"
    using mset_eq_imp_distinct_iff by blast
  show ?thesis
    using run good pairs by blast
qed


text \<open>
  The segment of a template result: its source and target id are the id of a segment of
  the script that contains the phrase given as source content.
\<close>

lemma detectDuplicates_template_results:
  assumes "detectDuplicates u fresh config script = Inr results"
    and "r \<in> set results" and "dup_type r = Template"
  shows "\<exists>s\<in>set (script_segments script).
           source_id r = seg_id s \<and> target_id r = seg_id s \<and>
           ref_content (dup_target r) = seg_content s \<and>
           str_includes (seg_content s) (ref_content (dup_source r))"
proof -
  from detectDuplicates_results [of u fresh config script] assms(1)
  have "\<forall>r\<in>set results.
        (dup_type r = Template \<and> source_id r = target_id r \<and>
         (\<exists>s\<in>set (script_segments script).
            target_id r = seg_id s \<and> ref_content (dup_target r) = seg_content s \<and>
            str_includes (seg_content s) (ref_content (dup_source r)))) \<or>
        (dup_type r \<noteq> Template \<and> from_positions (script_segments script) r)"
    by simp
  with assms(2,3) have "source_id r = target_id r \<and>
         (\<exists>s\<in>set (script_segments script).
            target_id r = seg_id s \<and> ref_content (dup_target r) = seg_content s \<and>
            str_includes (seg_content s) (ref_content (dup_source r)))"
    by blast
  then show ?thesis
    by metis
qed



end
